theory Spec2Isabelle
  imports Complex_Main
begin

section \<open>Text primitives of the Python runtime\<close>

text \<open>
  The report text is a Python \<open>str\<close>. It is modelled as a \<open>string\<close> whose characters are
  the code points 0..255 (Latin-1), so the character classes below are the restrictions of
  Python's Unicode classes to that range. Floats are modelled by the exact value of the
  decimal literal they are converted from (binary rounding is not modelled).
\<close>

definition is_digit :: "char \<Rightarrow> bool" where
  \<comment> \<open>\<open>\d\<close> and \<open>[0-9]\<close>: the only decimal digits below code point 256.\<close>
  "is_digit c = (c \<in> set ''0123456789'')"

definition lower_char :: "char \<Rightarrow> char" where
  "lower_char c =
     (let n = (of_char c :: int)
      in if (65 \<le> n \<and> n \<le> 90) \<or> (192 \<le> n \<and> n \<le> 222 \<and> n \<noteq> 215)
         then char_of (n + 32) else c)"

definition lower :: "string \<Rightarrow> string" where
  \<comment> \<open>\<open>str.lower()\<close>\<close>
  "lower s = map lower_char s"

definition is_space :: "char \<Rightarrow> bool" where
  \<comment> \<open>\<open>\s\<close> and the characters \<open>str.strip()\<close> removes.\<close>
  "is_space c =
     (let n = (of_char c :: int)
      in (9 \<le> n \<and> n \<le> 13) \<or> (28 \<le> n \<and> n \<le> 32) \<or> n = 133 \<or> n = 160)"

definition is_word :: "char \<Rightarrow> bool" where
  \<comment> \<open>\<open>\w\<close>: alphanumeric characters and the underscore.\<close>
  "is_word c =
     (let n = (of_char c :: int)
      in (48 \<le> n \<and> n \<le> 57) \<or> (65 \<le> n \<and> n \<le> 90) \<or> n = 95 \<or> (97 \<le> n \<and> n \<le> 122)
         \<or> n = 170 \<or> n = 178 \<or> n = 179 \<or> n = 181 \<or> n = 185 \<or> n = 186
         \<or> (188 \<le> n \<and> n \<le> 190) \<or> (192 \<le> n \<and> n \<le> 214) \<or> (216 \<le> n \<and> n \<le> 246)
         \<or> 248 \<le> n)"

definition is_linebreak :: "char \<Rightarrow> bool" where
  \<comment> \<open>The line boundaries of \<open>str.splitlines()\<close>.\<close>
  "is_linebreak c =
     (let n = (of_char c :: int)
      in (10 \<le> n \<and> n \<le> 13) \<or> (28 \<le> n \<and> n \<le> 30) \<or> n = 133)"

fun splitlines_acc :: "string \<Rightarrow> string \<Rightarrow> string list" where
  "splitlines_acc cur [] = (if cur = [] then [] else [rev cur])"
| "splitlines_acc cur [x] = (if is_linebreak x then [rev cur] else [rev (x # cur)])"
| "splitlines_acc cur (x # y # ys) =
     (if x = CHR 0x0D \<and> y = CHR 0x0A then rev cur # splitlines_acc [] ys
      else if is_linebreak x then rev cur # splitlines_acc [] (y # ys)
      else splitlines_acc (x # cur) (y # ys))"

definition splitlines :: "string \<Rightarrow> string list" where
  "splitlines s = splitlines_acc [] s"

definition strip :: "string \<Rightarrow> string" where
  "strip s = rev (dropWhile is_space (rev (dropWhile is_space s)))"

fun is_prefix :: "string \<Rightarrow> string \<Rightarrow> bool" where
  "is_prefix [] ys = True"
| "is_prefix (x # xs) [] = False"
| "is_prefix (x # xs) (y # ys) = (x = y \<and> is_prefix xs ys)"

fun contains :: "string \<Rightarrow> string \<Rightarrow> bool" where
  \<comment> \<open>\<open>needle in hay\<close>\<close>
  "contains needle [] = (needle = [])"
| "contains needle (y # ys) = (is_prefix needle (y # ys) \<or> contains needle ys)"

subsection \<open>float()\<close>

datatype py_error = ValueError | AttributeError

definition bindE :: "py_error + 'a \<Rightarrow> ('a \<Rightarrow> py_error + 'b) \<Rightarrow> py_error + 'b" where
  "bindE x f = (case x of Inl e \<Rightarrow> Inl e | Inr v \<Rightarrow> f v)"

definition digit_val :: "char \<Rightarrow> int" where
  "digit_val c = of_char c - 48"

definition digits_val :: "string \<Rightarrow> real" where
  "digits_val ds = foldl (\<lambda>a c. 10 * a + real_of_int (digit_val c)) 0 ds"

definition unsigned_float :: "string \<Rightarrow> py_error + real" where
  "unsigned_float s =
     (let ip = takeWhile is_digit s; r = dropWhile is_digit s
      in case r of
           [] \<Rightarrow> if ip = [] then Inl ValueError else Inr (digits_val ip)
         | c # fp \<Rightarrow>
             if c = CHR ''.'' \<and> list_all is_digit fp \<and> (ip \<noteq> [] \<or> fp \<noteq> [])
             then Inr (digits_val (ip @ fp) / 10 ^ length fp)
             else Inl ValueError)"

definition py_float :: "string \<Rightarrow> py_error + real" where
  \<comment> \<open>\<open>float(s)\<close> on the strings the program converts: digits, one optional point, an
      optional sign in front. Anything else over that alphabet raises ValueError.\<close>
  "py_float s =
     (case s of
        [] \<Rightarrow> Inl ValueError
      | c # r \<Rightarrow>
          if c = CHR ''-'' then map_sum id uminus (unsigned_float r)
          else if c = CHR ''+'' then unsigned_float r
          else unsigned_float s)"

definition float_nocomma :: "string \<Rightarrow> py_error + real" where
  \<comment> \<open>\<open>float(s.replace(",", ""))\<close>\<close>
  "float_nocomma s = py_float (filter (\<lambda>c. c \<noteq> CHR '','') s)"

section \<open>Regular expressions: a backtracking matcher\<close>

text \<open>
  \<open>ms r (s, caps)\<close> lists, in the order a backtracking matcher tries them, every way
  \<open>r\<close> matches a prefix of \<open>s\<close>: the text left over and the groups captured. The first
  element is the match Python's \<open>re\<close> reports.
\<close>

datatype re =
    Eps
  | Sym "char \<Rightarrow> bool"
  | Seq re re
  | Alt re re
  | Opt re
  | Star re
  | StarL re
  | Grp nat re
  | Eos

type_synonym caps = "(nat \<times> string) list"
type_synonym mstate = "string \<times> caps"

function ms :: "re \<Rightarrow> mstate \<Rightarrow> mstate list" where
  "ms Eps st = [st]"
| "ms (Sym p) st = (case fst st of [] \<Rightarrow> [] | x # xs \<Rightarrow> if p x then [(xs, snd st)] else [])"
| "ms (Seq a b) st = concat (map (ms b) (ms a st))"
| "ms (Alt a b) st = ms a st @ ms b st"
| "ms (Opt a) st = ms a st @ [st]"
| "ms (Star a) st =
     concat (map (\<lambda>st'. if length (fst st') < length (fst st) then ms (Star a) st' else [])
                 (ms a st)) @ [st]"
| "ms (StarL a) st =
     st # concat (map (\<lambda>st'. if length (fst st') < length (fst st) then ms (StarL a) st' else [])
                      (ms a st))"
| "ms (Grp n a) st =
     map (\<lambda>st'. (fst st', (n, take (length (fst st) - length (fst st')) (fst st)) # snd st'))
         (ms a st)"
| "ms Eos st = (if fst st = [] \<or> fst st = [CHR 0x0A] then [st] else [])"
  by pat_completeness auto
termination
  by (relation "measures [\<lambda>(r, st). size r, \<lambda>(r, st). length (fst st)]") auto

definition PlusG :: "re \<Rightarrow> re" where
  \<comment> \<open>\<open>a+\<close>\<close>
  "PlusG a = Seq a (Star a)"

definition PlusL :: "re \<Rightarrow> re" where
  \<comment> \<open>\<open>a+?\<close>\<close>
  "PlusL a = Seq a (StarL a)"

definition chr :: "char \<Rightarrow> re" where
  "chr x = Sym (\<lambda>c. c = x)"

definition ichr :: "char \<Rightarrow> re" where
  \<comment> \<open>a literal under \<open>re.IGNORECASE\<close>\<close>
  "ichr x = Sym (\<lambda>c. lower_char c = lower_char x)"

fun istr :: "string \<Rightarrow> re" where
  "istr [] = Eps"
| "istr (x # xs) = Seq (ichr x) (istr xs)"

fun seqs :: "re list \<Rightarrow> re" where
  "seqs [] = Eps"
| "seqs (r # rs) = Seq r (seqs rs)"

definition dot :: re where
  \<comment> \<open>\<open>.\<close> without \<open>re.DOTALL\<close>\<close>
  "dot = Sym (\<lambda>c. c \<noteq> CHR 0x0A)"

definition dot_all :: re where
  \<comment> \<open>\<open>.\<close> under \<open>re.DOTALL\<close>\<close>
  "dot_all = Sym (\<lambda>c. True)"

record rmatch =
  pre :: string
  whole :: string
  groups :: caps
  post :: string

definition mk_match :: "string \<Rightarrow> string \<Rightarrow> mstate \<Rightarrow> rmatch" where
  "mk_match acc s st =
     \<lparr>pre = rev acc, whole = take (length s - length (fst st)) s, groups = snd st, post = fst st\<rparr>"

fun search_acc :: "re \<Rightarrow> string \<Rightarrow> string \<Rightarrow> rmatch option" where
  "search_acc r acc s =
     (case ms r (s, []) of
        st # _ \<Rightarrow> Some (mk_match acc s st)
      | [] \<Rightarrow> (case s of [] \<Rightarrow> None | x # xs \<Rightarrow> search_acc r (x # acc) xs))"

definition search :: "re \<Rightarrow> string \<Rightarrow> rmatch option" where
  \<comment> \<open>\<open>re.search\<close>: the leftmost position with a match, and the first match there.\<close>
  "search r s = search_acc r [] s"

definition group :: "rmatch \<Rightarrow> nat \<Rightarrow> string option" where
  \<comment> \<open>\<open>m.group(n)\<close> for \<open>n \<ge> 1\<close>; \<open>None\<close> when the group took no part in the match.\<close>
  "group m n = map_of (groups m) n"

text \<open>
  The scanner behind \<open>re.finditer\<close>, \<open>re.findall\<close> and \<open>re.sub\<close>: after a match the search
  resumes where it ended, and after an empty match it resumes at the same place but must
  advance there.
\<close>

definition first_ok :: "bool \<Rightarrow> string \<Rightarrow> mstate list \<Rightarrow> mstate option" where
  "first_ok adv s sts = List.find (\<lambda>st. \<not> adv \<or> length (fst st) < length s) sts"

function finditer_acc :: "re \<Rightarrow> bool \<Rightarrow> string \<Rightarrow> string \<Rightarrow> rmatch list" where
  "finditer_acc r adv acc s =
     (case first_ok adv s (ms r (s, [])) of
        Some st \<Rightarrow>
          mk_match acc s st #
            (if length (fst st) < length s then finditer_acc r False [] (fst st)
             else if \<not> adv then finditer_acc r True [] s
             else [])
      | None \<Rightarrow> (case s of [] \<Rightarrow> [] | x # xs \<Rightarrow> finditer_acc r False (x # acc) xs))"
  by pat_completeness auto
termination
  by (relation "measures [\<lambda>(r, adv, acc, s). length s, \<lambda>(r, adv, acc, s). if adv then 0 else 1]")
     auto

definition finditer :: "re \<Rightarrow> string \<Rightarrow> rmatch list" where
  "finditer r s = finditer_acc r False [] s"

definition findall :: "re \<Rightarrow> string \<Rightarrow> string list" where
  \<comment> \<open>\<open>re.findall\<close> for a pattern without groups\<close>
  "findall r s = map whole (finditer r s)"

function sub_acc :: "re \<Rightarrow> string \<Rightarrow> bool \<Rightarrow> string \<Rightarrow> string" where
  "sub_acc r repl adv s =
     (case first_ok adv s (ms r (s, [])) of
        Some st \<Rightarrow>
          repl @
            (if length (fst st) < length s then sub_acc r repl False (fst st)
             else if \<not> adv then sub_acc r repl True s
             else s)
      | None \<Rightarrow> (case s of [] \<Rightarrow> [] | x # xs \<Rightarrow> x # sub_acc r repl False xs))"
  by pat_completeness auto
termination
  by (relation "measures [\<lambda>(r, repl, adv, s). length s, \<lambda>(r, repl, adv, s). if adv then 0 else 1]")
     auto

definition re_sub :: "re \<Rightarrow> string \<Rightarrow> string \<Rightarrow> string" where
  \<comment> \<open>\<open>re.sub(r, repl, s)\<close>\<close>
  "re_sub r repl s = sub_acc r repl False s"

subsection \<open>What a match looks like\<close>

text \<open>
  \<open>shape r m\<close>: the text \<open>m\<close> is in the language of \<open>r\<close>. It is the specification side of
  the matcher and is used to show that the numeric conversions cannot fail.
\<close>

primrec shape :: "re \<Rightarrow> string \<Rightarrow> bool" where
  "shape Eps m = (m = [])"
| "shape (Sym p) m = (\<exists>c. m = [c] \<and> p c)"
| "shape (Seq a b) m = (\<exists>u v. m = u @ v \<and> shape a u \<and> shape b v)"
| "shape (Alt a b) m = (shape a m \<or> shape b m)"
| "shape (Opt a) m = (m = [] \<or> shape a m)"
| "shape (Star a) m = (\<exists>us. m = concat us \<and> list_all (shape a) us)"
| "shape (StarL a) m = (\<exists>us. m = concat us \<and> list_all (shape a) us)"
| "shape (Grp n a) m = shape a m"
| "shape Eos m = (m = [])"

primrec grp_pats :: "re \<Rightarrow> (nat \<times> re) set" where
  "grp_pats Eps = {}"
| "grp_pats (Sym p) = {}"
| "grp_pats (Seq a b) = grp_pats a \<union> grp_pats b"
| "grp_pats (Alt a b) = grp_pats a \<union> grp_pats b"
| "grp_pats (Opt a) = grp_pats a"
| "grp_pats (Star a) = grp_pats a"
| "grp_pats (StarL a) = grp_pats a"
| "grp_pats (Grp n a) = insert (n, a) (grp_pats a)"
| "grp_pats Eos = {}"

primrec must_grps :: "re \<Rightarrow> nat set" where
  \<comment> \<open>the groups every match sets\<close>
  "must_grps Eps = {}"
| "must_grps (Sym p) = {}"
| "must_grps (Seq a b) = must_grps a \<union> must_grps b"
| "must_grps (Alt a b) = must_grps a \<inter> must_grps b"
| "must_grps (Opt a) = {}"
| "must_grps (Star a) = {}"
| "must_grps (StarL a) = {}"
| "must_grps (Grp n a) = insert n (must_grps a)"
| "must_grps Eos = {}"

section \<open>The field extractors of app.py\<close>

definition NUM :: re where
  \<comment> \<open>\<open>-?\d+[\d,]*\.?\d*\<close>\<close>
  "NUM = seqs [Opt (chr CHR ''-''), PlusG (Sym is_digit),
               Star (Sym (\<lambda>c. is_digit c \<or> c = CHR '','')),
               Opt (chr CHR ''.''), Star (Sym is_digit)]"

definition colon_space :: re where
  \<comment> \<open>\<open>[:\s]*\<close>\<close>
  "colon_space = Star (Sym (\<lambda>c. c = CHR '':'' \<or> is_space c))"

definition rs_kwh_tail :: re where
  \<comment> \<open>\<open>rs\/?kwh[:\s]*([0-9\.\, -]+)\<close>\<close>
  "rs_kwh_tail =
     seqs [istr ''rs'', Opt (chr CHR ''/''), istr ''kwh'', colon_space,
           Grp 1 (PlusG (Sym (\<lambda>c. is_digit c \<or> c \<in> set ''., -'')))]"

subsection \<open>find_first_float\<close>

fun find_first_float :: "re list \<Rightarrow> string \<Rightarrow> py_error + real option" where
  "find_first_float [] text = Inr None"
| "find_first_float (pat # pats) text =
     (case search pat text of
        None \<Rightarrow> find_first_float pats text
      | Some m \<Rightarrow>
          (case search NUM (whole m) of
             None \<Rightarrow> find_first_float pats text
           | Some num \<Rightarrow> map_sum id Some (float_nocomma (whole num))))"

subsection \<open>parse_variable_charge\<close>

record vc =
  merc_order :: "real option"
  recoverable_mod :: "real option"
  actual :: "real option"
  disallowance_rs_cr :: "real option"
  unrecoverable_rpkwh :: "real option"

definition vc_init :: vc where
  "vc_init = \<lparr>merc_order = None, recoverable_mod = None, actual = None,
              disallowance_rs_cr = None, unrecoverable_rpkwh = None\<rparr>"

definition kw_merc :: "string \<Rightarrow> bool" where
  "kw_merc low = (contains ''variable charge'' low \<and> contains ''merc'' low)"

definition kw_recoverable :: "string \<Rightarrow> bool" where
  "kw_recoverable low =
     (contains ''variable charge (recoverable'' low \<or>
      (contains ''recoverable'' low \<and> contains ''mod'' low))"

definition kw_actual :: "string \<Rightarrow> bool" where
  "kw_actual low =
     (contains ''variable charge (actual'' low \<or> contains ''actual energy charge'' low)"

definition kw_disallowance :: "string \<Rightarrow> bool" where
  "kw_disallowance low = (contains ''disallowance'' low \<and> contains ''rs'' low)"

definition kw_unrecoverable :: "string \<Rightarrow> bool" where
  "kw_unrecoverable low = contains ''unrecoverable'' low"

definition set_from_line :: "string \<Rightarrow> (real \<Rightarrow> vc \<Rightarrow> vc) \<Rightarrow> vc \<Rightarrow> py_error + vc" where
  \<comment> \<open>\<open>m = re.search(NUM, line); if m: vc[k] = float(m.group().replace(",", ""))\<close>\<close>
  "set_from_line line upd v =
     (case search NUM line of
        None \<Rightarrow> Inr v
      | Some m \<Rightarrow> map_sum id (\<lambda>x. upd x v) (float_nocomma (whole m)))"

definition vc_line :: "vc \<Rightarrow> string \<Rightarrow> py_error + vc" where
  \<comment> \<open>the body of the loop over the lines\<close>
  "vc_line v0 line =
     (let low = lower line in
      bindE (if kw_merc low
             then set_from_line line (\<lambda>x v. v\<lparr>merc_order := Some x\<rparr>) v0 else Inr v0) (\<lambda>v1.
      bindE (if kw_recoverable low
             then set_from_line line (\<lambda>x v. v\<lparr>recoverable_mod := Some x\<rparr>) v1 else Inr v1) (\<lambda>v2.
      bindE (if kw_actual low
             then set_from_line line (\<lambda>x v. v\<lparr>actual := Some x\<rparr>) v2 else Inr v2) (\<lambda>v3.
      bindE (if kw_disallowance low
             then set_from_line line (\<lambda>x v. v\<lparr>disallowance_rs_cr := Some x\<rparr>) v3 else Inr v3) (\<lambda>v4.
      if kw_unrecoverable low
      then set_from_line line (\<lambda>x v. v\<lparr>unrecoverable_rpkwh := Some x\<rparr>) v4 else Inr v4)))))"

fun vc_lines :: "vc \<Rightarrow> string list \<Rightarrow> py_error + vc" where
  "vc_lines v [] = Inr v"
| "vc_lines v (l # ls) = bindE (vc_line v l) (\<lambda>v'. vc_lines v' ls)"

definition merc_fallback :: "re list" where
  "merc_fallback = [seqs [istr ''variable charge'', Star dot, istr ''merc'', Star dot, rs_kwh_tail]]"

definition recoverable_fallback :: "re list" where
  "recoverable_fallback =
     [seqs [istr ''variable charge'', Star dot, istr ''recoverable'', Star dot, rs_kwh_tail]]"

definition actual_fallback :: "re list" where
  "actual_fallback =
     [seqs [istr ''variable charge'', Star dot, istr ''actual'', Star dot, rs_kwh_tail],
      seqs [istr ''actual energy charge'', Star dot, rs_kwh_tail]]"

definition disallowance_re :: re where
  \<comment> \<open>\<open>disallowance\s*rs[\. ]*cr[:\s]*(-?\d+[\d,]*\.?\d*)\<close>\<close>
  "disallowance_re =
     seqs [istr ''disallowance'', Star (Sym is_space), istr ''rs'',
           Star (Sym (\<lambda>c. c \<in> set ''. '')), istr ''cr'', colon_space, Grp 1 NUM]"

definition group_float :: "rmatch \<Rightarrow> nat \<Rightarrow> py_error + real" where
  \<comment> \<open>\<open>float(m.group(n).replace(",", ""))\<close>\<close>
  "group_float m n =
     (case group m n of None \<Rightarrow> Inl AttributeError | Some g \<Rightarrow> float_nocomma g)"

definition disallowance_fallback :: "string \<Rightarrow> py_error + real option" where
  "disallowance_fallback text =
     (case search disallowance_re text of
        None \<Rightarrow> Inr None
      | Some m \<Rightarrow> map_sum id Some (group_float m 1))"

definition or_else :: "real option \<Rightarrow> py_error + real option \<Rightarrow> py_error + real option" where
  \<comment> \<open>\<open>if vc[k] is None: vc[k] = fallback\<close>; the fallback runs only then\<close>
  "or_else cur fb = (case cur of Some x \<Rightarrow> Inr (Some x) | None \<Rightarrow> fb)"

definition vc_fallbacks :: "string \<Rightarrow> vc \<Rightarrow> py_error + vc" where
  "vc_fallbacks text v =
     bindE (or_else (merc_order v) (find_first_float merc_fallback text)) (\<lambda>a.
     bindE (or_else (recoverable_mod v) (find_first_float recoverable_fallback text)) (\<lambda>b.
     bindE (or_else (actual v) (find_first_float actual_fallback text)) (\<lambda>c.
     bindE (or_else (disallowance_rs_cr v) (disallowance_fallback text)) (\<lambda>d.
     Inr (v\<lparr>merc_order := a, recoverable_mod := b, actual := c, disallowance_rs_cr := d\<rparr>)))))"

definition parse_variable_charge :: "string \<Rightarrow> py_error + vc" where
  "parse_variable_charge text =
     bindE (vc_lines vc_init (splitlines text)) (vc_fallbacks text)"

subsection \<open>parse_sp_coal\<close>

record sp_coal =
  allowable :: "real option"
  sp_actual :: "real option"

definition dot_num :: re where
  \<comment> \<open>\<open>[\d\.]+\<close> and \<open>[0-9\.]+\<close>\<close>
  "dot_num = PlusG (Sym (\<lambda>c. is_digit c \<or> c = CHR ''.''))"

definition sp_coal_re :: re where
  \<comment> \<open>\<open>sp coal consumption.*allowable.*actual.*?([\d\.]+).*?([\d\.]+)\<close>, IGNORECASE and DOTALL\<close>
  "sp_coal_re =
     seqs [istr ''sp coal consumption'', Star dot_all, istr ''allowable'', Star dot_all,
           istr ''actual'', StarL dot_all, Grp 1 dot_num, StarL dot_all, Grp 2 dot_num]"

definition allowable_res :: "re list" where
  "allowable_res =
     [seqs [istr ''allowable'', Star dot, istr ''norm'', colon_space, Grp 1 dot_num],
      seqs [istr ''allowable as per merc norm'', colon_space, Grp 1 dot_num]]"

definition one_digit_frac :: re where
  \<comment> \<open>\<open>([0-9]\.[0-9]+)\<close>\<close>
  "one_digit_frac = Grp 1 (seqs [Sym is_digit, chr CHR ''.'', PlusG (Sym is_digit)])"

definition actual_res :: "re list" where
  "actual_res =
     [seqs [istr ''actual'', colon_space, one_digit_frac, Star (Sym is_space), Eos],
      seqs [istr ''actual'', colon_space, one_digit_frac]]"

definition group_plain_float :: "rmatch \<Rightarrow> nat \<Rightarrow> py_error + real" where
  \<comment> \<open>\<open>float(m.group(n))\<close>\<close>
  "group_plain_float m n =
     (case group m n of None \<Rightarrow> Inl AttributeError | Some g \<Rightarrow> py_float g)"

definition parse_sp_coal :: "string \<Rightarrow> py_error + sp_coal" where
  "parse_sp_coal text =
     (case search sp_coal_re text of
        Some m \<Rightarrow>
          bindE (group_plain_float m 1) (\<lambda>a.
          bindE (group_plain_float m 2) (\<lambda>b.
          Inr \<lparr>allowable = Some a, sp_actual = Some b\<rparr>))
      | None \<Rightarrow>
          bindE (find_first_float allowable_res text) (\<lambda>allow.
          bindE (find_first_float actual_res text) (\<lambda>act.
          Inr \<lparr>allowable = allow, sp_actual = act\<rparr>)))"

subsection \<open>parse_coal_sources\<close>

record coal_source =
  name :: string
  GCV_ARB :: "real option"
  Landed_RsPerMT :: "real option"
  Eff_RsPerMkcal :: "real option"
  Pct_share :: "real option"

definition is_header :: "string \<Rightarrow> bool" where
  "is_header l =
     (search (istr ''coal source'') l \<noteq> None \<and>
      (contains ''gcv'' (lower l) \<or> contains ''landed cost'' (lower l)))"

fun data_rows :: "string list \<Rightarrow> string list" where
  \<comment> \<open>the lines after the first header line, or none when there is no header\<close>
  "data_rows [] = []"
| "data_rows (l # ls) = (if is_header l then ls else data_rows ls)"

definition is_name_sep :: "char \<Rightarrow> bool" where
  \<comment> \<open>\<open>[-\d\.,\|\t ]\<close>\<close>
  "is_name_sep c =
     (is_digit c \<or> c \<in> set [CHR ''-'', CHR ''.'', CHR '','', CHR ''|'', CHR 0x09, CHR '' ''])"

definition name_sep :: re where
  \<comment> \<open>\<open>[-\d\.,\|\t ]+\<close>\<close>
  "name_sep = PlusG (Sym is_name_sep)"

definition num_at :: "string list \<Rightarrow> nat \<Rightarrow> py_error + real option" where
  \<comment> \<open>\<open>float(nums[i].replace(",", "")) if len(nums) >= i + 1 else None\<close>\<close>
  "num_at nums i = (if i < length nums then map_sum id Some (float_nocomma (nums ! i)) else Inr None)"

definition coal_row :: "string \<Rightarrow> coal_source" where
  \<comment> \<open>one data row; the \<open>try\<close> turns any conversion error into four nulls\<close>
  "coal_row l =
     (let nums = findall NUM l;
          nm = strip (re_sub name_sep '' '' l);
          r = bindE (num_at nums 0) (\<lambda>gcv.
              bindE (num_at nums 1) (\<lambda>landed.
              bindE (num_at nums 2) (\<lambda>eff.
              bindE (num_at nums 3) (\<lambda>pct. Inr (gcv, landed, eff, pct)))))
      in case r of
           Inr (gcv, landed, eff, pct) \<Rightarrow>
             \<lparr>name = nm, GCV_ARB = gcv, Landed_RsPerMT = landed, Eff_RsPerMkcal = eff,
              Pct_share = pct\<rparr>
         | Inl e \<Rightarrow>
             \<lparr>name = nm, GCV_ARB = None, Landed_RsPerMT = None, Eff_RsPerMkcal = None,
              Pct_share = None\<rparr>)"

definition parse_coal_sources :: "string \<Rightarrow> coal_source list" where
  "parse_coal_sources text =
     map coal_row (takeWhile (\<lambda>l. strip l \<noteq> []) (take 200 (data_rows (splitlines text))))"

subsection \<open>parse_reasons_breakup\<close>

record reason_entry =
  reason :: string
  amount_rs_cr :: "real option"

definition reasons_re :: re where
  \<comment> \<open>\<open>(?P<title>[\w \-/\(\)\&]+?)\s*(?:Loss|loss)\s*[-\<dots>]\s*(?P<amt>NUM)\s*rs\.?cr\<close>, IGNORECASE;
      title is group 1 and amt group 2. The second character of the separator class is the
      en dash, which lies outside the modelled character range.\<close>
  "reasons_re =
     seqs [Grp 1 (PlusL (Sym (\<lambda>c. is_word (lower_char c) \<or> c \<in> set '' -/()&''))),
           Star (Sym is_space), Alt (istr ''Loss'') (istr ''loss''), Star (Sym is_space),
           chr CHR ''-'', Star (Sym is_space), Grp 2 NUM, Star (Sym is_space),
           istr ''rs'', Opt (chr CHR ''.''), istr ''cr'']"

definition fallback_reasons :: "string list" where
  "fallback_reasons =
     [''Diff in LEQ & ARB GCV'', ''Stack loss'', ''Plant / O&M /Other losses'', ''Sp Oil Consn'',
      ''Aux power consn'']"

definition fallback_re :: "string \<Rightarrow> re" where
  \<comment> \<open>\<open>fr + r".*?(-?\d+[\d,]*\.?\d*)"\<close>, IGNORECASE and DOTALL; no label has a metacharacter\<close>
  "fallback_re fr = seqs [istr fr, StarL dot_all, Grp 1 NUM]"

fun primary_reasons :: "rmatch list \<Rightarrow> py_error + reason_entry list" where
  "primary_reasons [] = Inr []"
| "primary_reasons (m # ms') =
     (case group m 1 of
        None \<Rightarrow> Inl AttributeError
      | Some title \<Rightarrow>
          bindE (group_float m 2) (\<lambda>amt.
          bindE (primary_reasons ms') (\<lambda>rest.
          Inr (\<lparr>reason = strip title, amount_rs_cr = Some amt\<rparr> # rest))))"

fun secondary_reasons :: "string \<Rightarrow> string list \<Rightarrow> reason_entry list \<Rightarrow> py_error + reason_entry list" where
  "secondary_reasons text [] reasons = Inr reasons"
| "secondary_reasons text (fr # frs) reasons =
     (if contains (lower fr) (lower text) \<and>
         \<not> list_ex (\<lambda>r. contains (lower fr) (lower (reason r))) reasons
      then bindE (case search (fallback_re fr) text of
                    None \<Rightarrow> Inr None
                  | Some m \<Rightarrow> map_sum id Some (group_float m 1)) (\<lambda>amt.
           secondary_reasons text frs (reasons @ [\<lparr>reason = fr, amount_rs_cr = amt\<rparr>]))
      else secondary_reasons text frs reasons)"

definition parse_reasons_breakup :: "string \<Rightarrow> py_error + reason_entry list" where
  "parse_reasons_breakup text =
     bindE (primary_reasons (finditer reasons_re text)) (secondary_reasons text fallback_reasons)"

section \<open>Reference notions for the extractors\<close>

definition first_number :: "string \<Rightarrow> real option" where
  \<comment> \<open>the value of the first signed decimal literal of a line, separators stripped\<close>
  "first_number line =
     (case search NUM line of
        None \<Rightarrow> None
      | Some m \<Rightarrow> (case float_nocomma (whole m) of Inr x \<Rightarrow> Some x | Inl e \<Rightarrow> None))"

definition hit :: "(string \<Rightarrow> bool) \<Rightarrow> string \<Rightarrow> bool" where
  \<comment> \<open>the line passes a sub-field's keyword test and carries a literal\<close>
  "hit kw l = (kw (lower l) \<and> first_number l \<noteq> None)"

definition hits :: "(string \<Rightarrow> bool) \<Rightarrow> string list \<Rightarrow> string list" where
  "hits kw lines = filter (hit kw) lines"

definition line_value :: "(string \<Rightarrow> bool) \<Rightarrow> string list \<Rightarrow> real option" where
  \<comment> \<open>what the scan over the lines leaves in a sub-field\<close>
  "line_value kw lines = (if hits kw lines = [] then None else first_number (last (hits kw lines)))"

definition tok_val :: "string \<Rightarrow> real option" where
  "tok_val t = (case float_nocomma t of Inr x \<Rightarrow> Some x | Inl e \<Rightarrow> None)"

definition nth_val :: "string list \<Rightarrow> nat \<Rightarrow> real option" where
  "nth_val nums i = (if i < length nums then tok_val (nums ! i) else None)"

function squeeze :: "(char \<Rightarrow> bool) \<Rightarrow> string \<Rightarrow> string" where
  \<comment> \<open>every maximal run of characters of the class replaced by one space, the other
      characters kept in their order\<close>
  "squeeze p [] = []"
| "squeeze p (x # xs) =
     (if p x then CHR '' '' # squeeze p (dropWhile p xs) else x # squeeze p xs)"
  by pat_completeness auto
termination
  by (relation "measure (\<lambda>(p, s). length s)") (auto simp: length_dropWhile_le le_imp_less_Suc)

fun pattern_value :: "re list \<Rightarrow> string \<Rightarrow> real option" where
  \<comment> \<open>the first literal inside the text matched by the first pattern, in list order,
      whose match holds a literal\<close>
  "pattern_value [] text = None"
| "pattern_value (pat # pats) text =
     (case search pat text of
        None \<Rightarrow> pattern_value pats text
      | Some m \<Rightarrow>
          (case first_number (whole m) of
             Some x \<Rightarrow> Some x
           | None \<Rightarrow> pattern_value pats text))"

definition disallowance_value :: "string \<Rightarrow> real option" where
  \<comment> \<open>the figure captured by the whole-text disallowance pattern\<close>
  "disallowance_value text =
     (case search disallowance_re text of
        None \<Rightarrow> None
      | Some m \<Rightarrow> (case group m 1 of None \<Rightarrow> None | Some g \<Rightarrow> tok_val g))"

definition new_caps_ok :: "re \<Rightarrow> caps \<Rightarrow> bool" where
  \<comment> \<open>every group captured by a match of \<open>r\<close> holds a text of that group's pattern, and
      the groups that every match sets are set\<close>
  "new_caps_ok r new =
     (list_all (\<lambda>x. \<exists>a. (fst x, a) \<in> grp_pats r \<and> shape a (snd x)) new \<and>
      must_grps r \<subseteq> fst ` set new)"

section \<open>Review and save\<close>

text \<open>
  The review form shows one number widget per numeric field. A widget returns a float:
  the default it was given, or the number the reviewer typed. \<open>review\<close> holds what the
  reviewer did: \<open>None\<close> for a widget left untouched.
\<close>

definition or_zero :: "real option \<Rightarrow> real" where
  \<comment> \<open>\<open>float(x or 0.0)\<close>\<close>
  "or_zero x = (case x of None \<Rightarrow> 0 | Some v \<Rightarrow> if v = 0 then 0 else v)"

definition number_input :: "real \<Rightarrow> real option \<Rightarrow> real" where
  \<comment> \<open>\<open>st.number_input(label, value=default)\<close>\<close>
  "number_input dflt edit = (case edit of None \<Rightarrow> dflt | Some x \<Rightarrow> x)"

record review =
  in_merc :: "real option"
  in_recoverable :: "real option"
  in_actual :: "real option"
  in_unrecoverable :: "real option"
  in_disallowance :: "real option"
  in_sp_allow :: "real option"
  in_sp_actual :: "real option"
  in_aux_power :: "real option"
  in_sp_oil :: "real option"
  in_station :: string
  in_period_label :: string
  in_report_date :: string
  in_coal_sources_json :: string
  in_reasons_json :: string

record report_record =
  station :: string
  period_label :: string
  report_date :: string
  vc_merc_order :: real
  vc_recoverable_mod :: real
  vc_actual :: real
  vc_unrecoverable_rpkwh :: real
  fuel_cost_disallowance_rs_cr :: real
  sp_coal_allowable :: real
  sp_coal_actual :: real
  aux_power_pct :: real
  sp_oil_ml_per_kwh :: real
  coal_sources :: string
  reasons_breakup :: string
  raw_text_excerpt :: string

definition build_record :: "vc \<Rightarrow> sp_coal \<Rightarrow> string \<Rightarrow> review \<Rightarrow> report_record" where
  \<comment> \<open>the widgets' values and the dictionary built when the save button is pressed\<close>
  "build_record v sp raw_text ui =
     \<lparr>station = in_station ui,
      period_label = in_period_label ui,
      report_date = in_report_date ui,
      vc_merc_order = number_input (or_zero (merc_order v)) (in_merc ui),
      vc_recoverable_mod = number_input (or_zero (recoverable_mod v)) (in_recoverable ui),
      vc_actual = number_input (or_zero (actual v)) (in_actual ui),
      vc_unrecoverable_rpkwh = number_input (or_zero (unrecoverable_rpkwh v)) (in_unrecoverable ui),
      fuel_cost_disallowance_rs_cr =
        number_input (or_zero (disallowance_rs_cr v)) (in_disallowance ui),
      sp_coal_allowable = number_input (or_zero (allowable sp)) (in_sp_allow ui),
      sp_coal_actual = number_input (or_zero (sp_actual sp)) (in_sp_actual ui),
      aux_power_pct = number_input 0 (in_aux_power ui),
      sp_oil_ml_per_kwh = number_input 0 (in_sp_oil ui),
      coal_sources = in_coal_sources_json ui,
      reasons_breakup = in_reasons_json ui,
      raw_text_excerpt = take 1200 raw_text\<rparr>"

section \<open>The local store: a CSV file\<close>

text \<open>
  The file is modelled as its rows, each a list of fields; quoting is transparent. A
  numeric field is a float or empty (its text reads back as the same float); a text field
  is its text. \<open>None\<close> is the missing file.
\<close>

record csv_row =
  c_station :: string
  c_period_label :: string
  c_report_date :: string
  c_vc_merc_order :: "real option"
  c_vc_recoverable_mod :: "real option"
  c_vc_actual :: "real option"
  c_vc_unrecoverable_rpkwh :: "real option"
  c_fuel_cost_disallowance_rs_cr :: "real option"
  c_sp_coal_allowable :: "real option"
  c_sp_coal_actual :: "real option"
  c_aux_power_pct :: "real option"
  c_sp_oil_ml_per_kwh :: "real option"
  c_coal_sources :: string
  c_reasons_breakup :: string
  c_raw_text_excerpt :: string

type_synonym store = "csv_row list option"

datatype cell = Null | Str string | Conv string

record frame_row =
  f_station :: cell
  f_period_label :: cell
  f_report_date :: cell
  f_vc_merc_order :: "real option"
  f_vc_recoverable_mod :: "real option"
  f_vc_actual :: "real option"
  f_vc_unrecoverable_rpkwh :: "real option"
  f_fuel_cost_disallowance_rs_cr :: "real option"
  f_sp_coal_allowable :: "real option"
  f_sp_coal_actual :: "real option"
  f_aux_power_pct :: "real option"
  f_sp_oil_ml_per_kwh :: "real option"
  f_coal_sources :: cell
  f_reasons_breakup :: cell
  f_raw_text_excerpt :: cell

text \<open>
  How \<open>pandas\<close> reads a text column depends on the whole column: when every field that
  is not a missing-value marker reads as a number, or every one as a boolean, the column
  is converted (\<open>Conv f\<close>: the value made of the text \<open>f\<close>); otherwise every such field
  stays the text it is. The reader's two tests and the way a converted value prints are
  parameters of the model, gathered in \<open>reader\<close>.
\<close>

record reader =
  numeric :: "string \<Rightarrow> bool"
  boolean :: "string \<Rightarrow> bool"
  reprint :: "string \<Rightarrow> string"

definition na_values :: "string list" where
  \<comment> \<open>the field texts \<open>pandas.read_csv\<close> reads as missing by default\<close>
  "na_values =
     [[], ''#N/A'', ''#N/A N/A'', ''#NA'', ''-1.#IND'', ''-1.#QNAN'', ''-NaN'', ''-nan'',
      ''1.#IND'', ''1.#QNAN'', ''<NA>'', ''N/A'', ''NA'', ''NULL'', ''NaN'', ''None'', ''n/a'',
      ''nan'', ''null'']"

definition is_na :: "string \<Rightarrow> bool" where
  "is_na f = (f \<in> set na_values)"

definition converted :: "reader \<Rightarrow> string list \<Rightarrow> bool" where
  \<comment> \<open>the column with these fields is read as numbers or as booleans\<close>
  "converted rd fs =
     (let there = filter (\<lambda>f. \<not> is_na f) fs
      in there \<noteq> [] \<and> (list_all (numeric rd) there \<or> list_all (boolean rd) there))"

definition read_text :: "bool \<Rightarrow> string \<Rightarrow> cell" where
  "read_text cv f = (if is_na f then Null else if cv then Conv f else Str f)"

definition write_text :: "reader \<Rightarrow> cell \<Rightarrow> string" where
  \<comment> \<open>\<open>to_csv\<close>: a missing value is the empty field\<close>
  "write_text rd c = (case c of Null \<Rightarrow> [] | Str s \<Rightarrow> s | Conv f \<Rightarrow> reprint rd f)"

definition read_csv :: "reader \<Rightarrow> csv_row list \<Rightarrow> frame_row list" where
  \<comment> \<open>\<open>pd.read_csv\<close>\<close>
  "read_csv rd rows =
     map (\<lambda>r.
       \<lparr>f_station = read_text (converted rd (map c_station rows)) (c_station r),
        f_period_label = read_text (converted rd (map c_period_label rows)) (c_period_label r),
        f_report_date = read_text (converted rd (map c_report_date rows)) (c_report_date r),
        f_vc_merc_order = c_vc_merc_order r,
        f_vc_recoverable_mod = c_vc_recoverable_mod r,
        f_vc_actual = c_vc_actual r,
        f_vc_unrecoverable_rpkwh = c_vc_unrecoverable_rpkwh r,
        f_fuel_cost_disallowance_rs_cr = c_fuel_cost_disallowance_rs_cr r,
        f_sp_coal_allowable = c_sp_coal_allowable r,
        f_sp_coal_actual = c_sp_coal_actual r,
        f_aux_power_pct = c_aux_power_pct r,
        f_sp_oil_ml_per_kwh = c_sp_oil_ml_per_kwh r,
        f_coal_sources = read_text (converted rd (map c_coal_sources rows)) (c_coal_sources r),
        f_reasons_breakup =
          read_text (converted rd (map c_reasons_breakup rows)) (c_reasons_breakup r),
        f_raw_text_excerpt =
          read_text (converted rd (map c_raw_text_excerpt rows)) (c_raw_text_excerpt r)\<rparr>) rows"

definition write_row :: "reader \<Rightarrow> frame_row \<Rightarrow> csv_row" where
  "write_row rd r =
     \<lparr>c_station = write_text rd (f_station r),
      c_period_label = write_text rd (f_period_label r),
      c_report_date = write_text rd (f_report_date r),
      c_vc_merc_order = f_vc_merc_order r,
      c_vc_recoverable_mod = f_vc_recoverable_mod r,
      c_vc_actual = f_vc_actual r,
      c_vc_unrecoverable_rpkwh = f_vc_unrecoverable_rpkwh r,
      c_fuel_cost_disallowance_rs_cr = f_fuel_cost_disallowance_rs_cr r,
      c_sp_coal_allowable = f_sp_coal_allowable r,
      c_sp_coal_actual = f_sp_coal_actual r,
      c_aux_power_pct = f_aux_power_pct r,
      c_sp_oil_ml_per_kwh = f_sp_oil_ml_per_kwh r,
      c_coal_sources = write_text rd (f_coal_sources r),
      c_reasons_breakup = write_text rd (f_reasons_breakup r),
      c_raw_text_excerpt = write_text rd (f_raw_text_excerpt r)\<rparr>"

definition to_csv :: "reader \<Rightarrow> frame_row list \<Rightarrow> csv_row list" where
  "to_csv rd frame = map (write_row rd) frame"

definition df_row :: "report_record \<Rightarrow> frame_row" where
  \<comment> \<open>\<open>pd.DataFrame([record])\<close>\<close>
  "df_row r =
     \<lparr>f_station = Str (station r),
      f_period_label = Str (period_label r),
      f_report_date = Str (report_date r),
      f_vc_merc_order = Some (vc_merc_order r),
      f_vc_recoverable_mod = Some (vc_recoverable_mod r),
      f_vc_actual = Some (vc_actual r),
      f_vc_unrecoverable_rpkwh = Some (vc_unrecoverable_rpkwh r),
      f_fuel_cost_disallowance_rs_cr = Some (fuel_cost_disallowance_rs_cr r),
      f_sp_coal_allowable = Some (sp_coal_allowable r),
      f_sp_coal_actual = Some (sp_coal_actual r),
      f_aux_power_pct = Some (aux_power_pct r),
      f_sp_oil_ml_per_kwh = Some (sp_oil_ml_per_kwh r),
      f_coal_sources = Str (coal_sources r),
      f_reasons_breakup = Str (reasons_breakup r),
      f_raw_text_excerpt = Str (raw_text_excerpt r)\<rparr>"

definition append_local :: "reader \<Rightarrow> store \<Rightarrow> report_record \<Rightarrow> store" where
  \<comment> \<open>the local append of the save block\<close>
  "append_local rd st r =
     (case st of
        Some rows \<Rightarrow> Some (to_csv rd (read_csv rd rows @ [df_row r]))
      | None \<Rightarrow> Some (to_csv rd [df_row r]))"




definition record_row :: "report_record \<Rightarrow> csv_row" where
  \<comment> \<open>the fields of a record as they are written\<close>
  "record_row r =
     \<lparr>c_station = station r, c_period_label = period_label r, c_report_date = report_date r,
      c_vc_merc_order = Some (vc_merc_order r),
      c_vc_recoverable_mod = Some (vc_recoverable_mod r),
      c_vc_actual = Some (vc_actual r),
      c_vc_unrecoverable_rpkwh = Some (vc_unrecoverable_rpkwh r),
      c_fuel_cost_disallowance_rs_cr = Some (fuel_cost_disallowance_rs_cr r),
      c_sp_coal_allowable = Some (sp_coal_allowable r),
      c_sp_coal_actual = Some (sp_coal_actual r),
      c_aux_power_pct = Some (aux_power_pct r),
      c_sp_oil_ml_per_kwh = Some (sp_oil_ml_per_kwh r),
      c_coal_sources = coal_sources r, c_reasons_breakup = reasons_breakup r,
      c_raw_text_excerpt = raw_text_excerpt r\<rparr>"


definition store_rows :: "store \<Rightarrow> csv_row list" where
  "store_rows st = (case st of Some rows \<Rightarrow> rows | None \<Rightarrow> [])"

definition stored_row :: "reader \<Rightarrow> store \<Rightarrow> report_record \<Rightarrow> csv_row" where
  \<comment> \<open>the row the local append adds to the file\<close>
  "stored_row rd st r = last (store_rows (append_local rd st r))"

definition field_value :: "real option \<Rightarrow> real option \<Rightarrow> real" where
  \<comment> \<open>the reviewer's number if one was entered, else the extracted value, else zero\<close>
  "field_value entered extracted =
     (case entered of
        Some e \<Rightarrow> e
      | None \<Rightarrow> (case extracted of Some x \<Rightarrow> x | None \<Rightarrow> 0))"

definition example_reader :: reader where
  \<comment> \<open>a reader for the examples: decimal literals are numbers, True and False booleans\<close>
  "example_reader =
     \<lparr>numeric = (\<lambda>f. case py_float f of Inr x \<Rightarrow> True | Inl e \<Rightarrow> False),
      boolean = (\<lambda>f. f \<in> set [''True'', ''False'']),
      reprint = (\<lambda>f. f)\<rparr>"

definition untouched :: review where
  \<comment> \<open>the review form as it opens: no number entered, the station preset, the period
      label empty\<close>
  "untouched =
     \<lparr>in_merc = None, in_recoverable = None, in_actual = None, in_unrecoverable = None,
      in_disallowance = None, in_sp_allow = None, in_sp_actual = None, in_aux_power = None,
      in_sp_oil = None, in_station = ''KTPS'', in_period_label = [],
      in_report_date = ''2025-10-05'', in_coal_sources_json = ''[]'', in_reasons_json = ''[]''\<rparr>"




section \<open>The remote append\<close>













section \<open>The dashboard aggregates\<close>




















subsection \<open>The coal-source rollup\<close>

text \<open>
  \<open>pd.read_json\<close> turns the stored text of a coal-source table into a frame. In a numeric
  column a JSON null is read as NaN, a float that is true in a condition; a column that
  the text does not have gives Python's \<open>None\<close> in the loop. A name is a text, null, or
  NaN when the whole column is null.
\<close>

datatype pynum = NaN | Fin real

datatype name_cell = NameNone | NameNaN | NameStr string

record cs_row =
  r_name :: name_cell
  r_eff :: "pynum option"
  r_pct :: "pynum option"

datatype cs_doc = Malformed | Frame "cs_row list"

definition read_json_number :: "real option \<Rightarrow> pynum" where
  \<comment> \<open>a JSON number or null in a numeric column, as \<open>pd.read_json\<close> returns it\<close>
  "read_json_number j = (case j of None \<Rightarrow> NaN | Some x \<Rightarrow> Fin x)"

definition truthy :: "pynum option \<Rightarrow> bool" where
  \<comment> \<open>\<open>if eff:\<close>\<close>
  "truthy v = (case v of None \<Rightarrow> False | Some NaN \<Rightarrow> True | Some (Fin x) \<Rightarrow> x \<noteq> 0)"

definition padd :: "pynum \<Rightarrow> pynum \<Rightarrow> pynum" where
  "padd a b = (case (a, b) of (Fin x, Fin y) \<Rightarrow> Fin (x + y) | _ \<Rightarrow> NaN)"

definition pdiv :: "pynum \<Rightarrow> nat \<Rightarrow> pynum" where
  \<comment> \<open>division by a positive count\<close>
  "pdiv a n = (case a of Fin x \<Rightarrow> Fin (x / real n) | NaN \<Rightarrow> NaN)"

record name_acc =
  cnt :: nat
  effs :: "pynum list"
  pct :: pynum

definition row_name :: "name_cell \<Rightarrow> string" where
  \<comment> \<open>\<open>str(row.get("name") or "").strip()\<close>\<close>
  "row_name c = strip (case c of NameNone \<Rightarrow> [] | NameNaN \<Rightarrow> ''nan'' | NameStr s \<Rightarrow> s)"

fun dict_set :: "(string \<times> name_acc) list \<Rightarrow> string \<Rightarrow> name_acc \<Rightarrow> (string \<times> name_acc) list" where
  \<comment> \<open>a dictionary in insertion order\<close>
  "dict_set [] k v = [(k, v)]"
| "dict_set ((k', v') # d) k v = (if k' = k then (k, v) # d else (k', v') # dict_set d k v)"

definition add_row :: "(string \<times> name_acc) list \<Rightarrow> cs_row \<Rightarrow> (string \<times> name_acc) list" where
  \<comment> \<open>the body of the loop over the rows of one table\<close>
  "add_row combined row =
     (let nm = row_name (r_name row) in
      if nm = [] then combined
      else
        let a0 = (case map_of combined nm of
                    None \<Rightarrow> \<lparr>cnt = 0, effs = [], pct = Fin 0\<rparr>
                  | Some a \<Rightarrow> a);
            a1 = a0\<lparr>cnt := cnt a0 + 1\<rparr>;
            a2 = (case r_eff row of
                    Some e \<Rightarrow> if truthy (Some e) then a1\<lparr>effs := effs a1 @ [e]\<rparr> else a1
                  | None \<Rightarrow> a1);
            a3 = (case r_pct row of
                    Some p \<Rightarrow> if truthy (Some p) then a2\<lparr>pct := padd (pct a2) p\<rparr> else a2
                  | None \<Rightarrow> a2)
        in dict_set combined nm a3)"

definition add_doc :: "(string \<times> name_acc) list \<Rightarrow> cs_doc \<Rightarrow> (string \<times> name_acc) list" where
  \<comment> \<open>one stored table; a text that does not decode is skipped\<close>
  "add_doc combined doc = (case doc of Malformed \<Rightarrow> combined | Frame rows \<Rightarrow> foldl add_row combined rows)"

record rollup_row =
  rl_name :: string
  appearances :: nat
  avg_eff_rs_per_mkcal :: "pynum option"
  total_pct_share :: pynum

definition avg_eff :: "pynum list \<Rightarrow> pynum option" where
  \<comment> \<open>\<open>sum(effs)/len(effs) if effs else None\<close>\<close>
  "avg_eff es = (if es = [] then None else Some (pdiv (foldl padd (Fin 0) es) (length es)))"

definition coal_rollup :: "cs_doc list \<Rightarrow> rollup_row list" where
  "coal_rollup docs =
     map (\<lambda>(k, v). \<lparr>rl_name = k, appearances = cnt v, avg_eff_rs_per_mkcal = avg_eff (effs v),
                     total_pct_share = pct v\<rparr>)
         (foldl add_doc [] docs)"

section \<open>Properties of the matcher\<close>

declare ms.simps [simp del]
declare search_acc.simps [simp del]
declare finditer_acc.simps [simp del]
declare sub_acc.simps [simp del]

lemma ms_inv:
  "st' \<in> set (ms r st) \<Longrightarrow>
     (\<exists>m. fst st = m @ fst st' \<and> shape r m) \<and>
     (\<exists>new. snd st' = new @ snd st \<and> new_caps_ok r new)"
proof (induction r st arbitrary: st' rule: ms.induct)
  case (1 st)
  then show ?case by (simp add: new_caps_ok_def list_all_iff ms.simps)
next
  case (2 p st)
  then obtain x xs where "fst st = x # xs" "p x" "st' = (xs, snd st)"
    by (cases "fst st") (auto simp: ms.simps split: if_splits)
  then have "fst st = [x] @ fst st'" "shape (Sym p) [x]" "snd st' = [] @ snd st" by auto
  moreover have "new_caps_ok (Sym p) []" by (simp add: new_caps_ok_def list_all_iff)
  ultimately show ?case by blast
next
  case (3 a b st)
  from "3.prems" obtain st1 where s1: "st1 \<in> set (ms a st)" and s2: "st' \<in> set (ms b st1)"
    by (auto simp: ms.simps(3))
  from "3.IH"(1)[OF s1] obtain m1 new1 where
    a: "fst st = m1 @ fst st1" "shape a m1" "snd st1 = new1 @ snd st" "new_caps_ok a new1"
    by blast
  from "3.IH"(2)[OF s1 s2] obtain m2 new2 where
    b: "fst st1 = m2 @ fst st'" "shape b m2" "snd st' = new2 @ snd st1" "new_caps_ok b new2"
    by blast
  have "fst st = (m1 @ m2) @ fst st'" using a b by simp
  moreover have "shape (Seq a b) (m1 @ m2)" using a b by auto
  moreover have "snd st' = (new2 @ new1) @ snd st" using a b by simp
  moreover have "new_caps_ok (Seq a b) (new2 @ new1)"
    using a(4) b(4) unfolding new_caps_ok_def list_all_iff by auto
  ultimately show ?case by blast
next
  case (4 a b st)
  from "4.prems" consider (l) "st' \<in> set (ms a st)" | (r) "st' \<in> set (ms b st)"
    by (auto simp: ms.simps(4))
  then show ?case
  proof cases
    case l
    from "4.IH"(1)[OF l] obtain m new where
      a: "fst st = m @ fst st'" "shape a m" "snd st' = new @ snd st" "new_caps_ok a new"
      by blast
    have "shape (Alt a b) m" using a by simp
    moreover have "new_caps_ok (Alt a b) new" using a(4) unfolding new_caps_ok_def list_all_iff by auto
    ultimately show ?thesis using a by blast
  next
    case r
    from "4.IH"(2)[OF r] obtain m new where
      a: "fst st = m @ fst st'" "shape b m" "snd st' = new @ snd st" "new_caps_ok b new"
      by blast
    have "shape (Alt a b) m" using a by simp
    moreover have "new_caps_ok (Alt a b) new" using a(4) unfolding new_caps_ok_def list_all_iff by auto
    ultimately show ?thesis using a by blast
  qed
next
  case (5 a st)
  from "5.prems" consider (l) "st' \<in> set (ms a st)" | (r) "st' = st"
    by (auto simp: ms.simps(5))
  then show ?case
  proof cases
    case l
    from "5.IH"[OF l] obtain m new where
      a: "fst st = m @ fst st'" "shape a m" "snd st' = new @ snd st" "new_caps_ok a new"
      by blast
    have "shape (Opt a) m" using a by simp
    moreover have "new_caps_ok (Opt a) new" using a(4) unfolding new_caps_ok_def list_all_iff by auto
    ultimately show ?thesis using a by blast
  next
    case r
    have "fst st = [] @ fst st'" "shape (Opt a) []" "snd st' = [] @ snd st" "new_caps_ok (Opt a) []"
      using r by (auto simp: new_caps_ok_def list_all_iff)
    then show ?thesis by blast
  qed
next
  case (6 a st)
  from "6.prems" consider (stop) "st' = st"
    | (step) st1 where "st1 \<in> set (ms a st)" "length (fst st1) < length (fst st)"
        "st' \<in> set (ms (Star a) st1)"
    by (subst (asm) ms.simps) (auto split: if_splits)
  then show ?case
  proof cases
    case stop
    have "fst st = [] @ fst st'" "shape (Star a) []" "snd st' = [] @ snd st" "new_caps_ok (Star a) []"
      using stop by (auto simp: new_caps_ok_def list_all_iff intro: exI[of _ "[]"])
    then show ?thesis by blast
  next
    case step
    from "6.IH"(1)[OF step(1)] obtain m1 new1 where
      a: "fst st = m1 @ fst st1" "shape a m1" "snd st1 = new1 @ snd st" "new_caps_ok a new1"
      by blast
    from "6.IH"(2)[OF step(1) step(2) step(3)] obtain m2 new2 where
      b: "fst st1 = m2 @ fst st'" "shape (Star a) m2" "snd st' = new2 @ snd st1" "new_caps_ok (Star a) new2"
      by blast
    from b(2) obtain us where us: "m2 = concat us" "list_all (shape a) us" by auto
    have "fst st = (m1 @ m2) @ fst st'" using a b by simp
    moreover have "shape (Star a) (m1 @ m2)"
      using us a(2) by (auto intro!: exI[of _ "m1 # us"])
    moreover have "snd st' = (new2 @ new1) @ snd st" using a b by simp
    moreover have "new_caps_ok (Star a) (new2 @ new1)"
      using a(4) b(4) unfolding new_caps_ok_def list_all_iff by auto
    ultimately show ?thesis by blast
  qed
next
  case (7 a st)
  from "7.prems" consider (stop) "st' = st"
    | (step) st1 where "st1 \<in> set (ms a st)" "length (fst st1) < length (fst st)"
        "st' \<in> set (ms (StarL a) st1)"
    by (subst (asm) ms.simps) (auto split: if_splits)
  then show ?case
  proof cases
    case stop
    have "fst st = [] @ fst st'" "shape (StarL a) []" "snd st' = [] @ snd st" "new_caps_ok (StarL a) []"
      using stop by (auto simp: new_caps_ok_def list_all_iff intro: exI[of _ "[]"])
    then show ?thesis by blast
  next
    case step
    from "7.IH"(1)[OF step(1)] obtain m1 new1 where
      a: "fst st = m1 @ fst st1" "shape a m1" "snd st1 = new1 @ snd st" "new_caps_ok a new1"
      by blast
    from "7.IH"(2)[OF step(1) step(2) step(3)] obtain m2 new2 where
      b: "fst st1 = m2 @ fst st'" "shape (StarL a) m2" "snd st' = new2 @ snd st1" "new_caps_ok (StarL a) new2"
      by blast
    from b(2) obtain us where us: "m2 = concat us" "list_all (shape a) us" by auto
    have "fst st = (m1 @ m2) @ fst st'" using a b by simp
    moreover have "shape (StarL a) (m1 @ m2)"
      using us a(2) by (auto intro!: exI[of _ "m1 # us"])
    moreover have "snd st' = (new2 @ new1) @ snd st" using a b by simp
    moreover have "new_caps_ok (StarL a) (new2 @ new1)"
      using a(4) b(4) unfolding new_caps_ok_def list_all_iff by auto
    ultimately show ?thesis by blast
  qed
next
  case (8 n a st)
  from "8.prems" obtain st1 where s1: "st1 \<in> set (ms a st)"
    and eq: "st' = (fst st1, (n, take (length (fst st) - length (fst st1)) (fst st)) # snd st1)"
    by (auto simp: ms.simps(8))
  from "8.IH"[OF s1] obtain m1 new1 where
    a: "fst st = m1 @ fst st1" "shape a m1" "snd st1 = new1 @ snd st" "new_caps_ok a new1"
    by blast
  have tk: "take (length (fst st) - length (fst st1)) (fst st) = m1" using a(1) by simp
  have "fst st = m1 @ fst st'" using a eq by simp
  moreover have "shape (Grp n a) m1" using a by simp
  moreover have "snd st' = ((n, m1) # new1) @ snd st" using a eq tk by simp
  moreover have "new_caps_ok (Grp n a) ((n, m1) # new1)"
    using a(2,4) unfolding new_caps_ok_def list_all_iff by auto
  ultimately show ?case by blast
next
  case (9 st)
  then show ?case by (auto simp: new_caps_ok_def list_all_iff ms.simps split: if_splits)
qed


lemma star_sym_shape: "shape (Star (Sym p)) m \<Longrightarrow> list_all p m"
proof -
  assume "shape (Star (Sym p)) m"
  then obtain us where us: "m = concat us" "list_all (shape (Sym p)) us" by auto
  have "list_all (shape (Sym p)) us \<Longrightarrow> list_all p (concat us)"
    by (induction us) auto
  then show ?thesis using us by simp
qed

lemma plus_sym_shape: "shape (PlusG (Sym p)) m \<Longrightarrow> m \<noteq> [] \<and> list_all p m"
proof -
  assume "shape (PlusG (Sym p)) m"
  then obtain u v where "m = u @ v" "shape (Sym p) u" "shape (Star (Sym p)) v"
    unfolding PlusG_def by auto
  then show ?thesis using star_sym_shape[of p v] by auto
qed

lemma shape_seqs_cons:
  "shape (seqs (r # rs)) m = (\<exists>u v. m = u @ v \<and> shape r u \<and> shape (seqs rs) v)"
  by simp

lemma shape_seqs_one: "shape (seqs [r]) m = shape r m"
  by simp

lemma shape_seqs5E:
  assumes "shape (seqs [a, b, c, d, e]) m"
  obtains u1 u2 u3 u4 u5 where "m = u1 @ u2 @ u3 @ u4 @ u5" "shape a u1" "shape b u2"
    "shape c u3" "shape d u4" "shape e u5"
proof -
  from assms have "\<exists>u v. m = u @ v \<and> shape a u \<and> shape (seqs [b, c, d, e]) v"
    by (simp only: shape_seqs_cons)
  then obtain u1 r1 where 1: "m = u1 @ r1" "shape a u1" "shape (seqs [b, c, d, e]) r1"
    by blast
  from 1(3) have "\<exists>u v. r1 = u @ v \<and> shape b u \<and> shape (seqs [c, d, e]) v"
    by (simp only: shape_seqs_cons)
  then obtain u2 r2 where 2: "r1 = u2 @ r2" "shape b u2" "shape (seqs [c, d, e]) r2"
    by blast
  from 2(3) have "\<exists>u v. r2 = u @ v \<and> shape c u \<and> shape (seqs [d, e]) v"
    by (simp only: shape_seqs_cons)
  then obtain u3 r3 where 3: "r2 = u3 @ r3" "shape c u3" "shape (seqs [d, e]) r3"
    by blast
  from 3(3) have "\<exists>u v. r3 = u @ v \<and> shape d u \<and> shape e v"
    by (simp only: shape_seqs_cons[of d "[e]"] shape_seqs_one)
  then obtain u4 u5 where 4: "r3 = u4 @ u5" "shape d u4" "shape e u5"
    by blast
  have "m = u1 @ u2 @ u3 @ u4 @ u5" by (simp only: 1(1) 2(1) 3(1) 4(1))
  then show thesis using 1(2) 2(2) 3(2) 4(2,3) by (rule that)
qed

lemma NUM_shape:
  assumes "shape NUM m"
  shows "\<exists>sg d1 d2 dt d3. m = sg @ d1 @ d2 @ dt @ d3 \<and> (sg = [] \<or> sg = ''-'') \<and> d1 \<noteq> [] \<and>
           list_all is_digit d1 \<and> list_all (\<lambda>c. is_digit c \<or> c = CHR '','') d2 \<and>
           (dt = [] \<or> dt = ''.'') \<and> list_all is_digit d3"
proof -
  from assms obtain sg d1 d2 dt d3 where
    m: "m = sg @ d1 @ d2 @ dt @ d3"
    and p: "shape (Opt (chr CHR ''-'')) sg" "shape (PlusG (Sym is_digit)) d1"
       "shape (Star (Sym (\<lambda>c. is_digit c \<or> c = CHR '',''))) d2"
       "shape (Opt (chr CHR ''.'')) dt" "shape (Star (Sym is_digit)) d3"
    unfolding NUM_def by (rule shape_seqs5E)
  have "sg = [] \<or> sg = ''-''" "dt = [] \<or> dt = ''.''" using p(1,4) by (auto simp: chr_def)
  moreover have "d1 \<noteq> [] \<and> list_all is_digit d1" using plus_sym_shape[OF p(2)] .
  moreover have "list_all (\<lambda>c. is_digit c \<or> c = CHR '','') d2" "list_all is_digit d3"
    using star_sym_shape p(3,5) by auto
  ultimately show ?thesis using m by blast
qed

lemma not_digit_point: "\<not> is_digit CHR ''.''" "\<not> is_digit CHR ''-''" "\<not> is_digit CHR ''+''" "\<not> is_digit CHR '',''"
  by (simp_all add: is_digit_def)

lemma unsigned_float_all_digits:
  assumes "list_all is_digit s" "s \<noteq> []"
  shows "unsigned_float s = Inr (digits_val s)"
proof -
  have tw: "takeWhile is_digit s = s" and dw: "dropWhile is_digit s = []"
    using assms(1) by (simp_all add: list_all_iff)
  show ?thesis unfolding unsigned_float_def tw dw using assms(2) by simp
qed

lemma unsigned_float_digits:
  assumes "list_all is_digit D" "D \<noteq> []" "list_all is_digit d3" "dt = [] \<or> dt = ''.''"
  shows "\<exists>x. unsigned_float (D @ dt @ d3) = Inr x"
proof -
  from assms(4) show ?thesis
  proof
    assume "dt = []"
    moreover have "list_all is_digit (D @ d3)" "D @ d3 \<noteq> []" using assms by auto
    ultimately show ?thesis using unsigned_float_all_digits[of "D @ d3"] by simp
  next
    assume dt: "dt = ''.''"
    have "takeWhile is_digit (D @ CHR ''.'' # d3) = D" "dropWhile is_digit (D @ CHR ''.'' # d3) = CHR ''.'' # d3"
      using assms(1) not_digit_point by (auto simp: list_all_iff takeWhile_append2 dropWhile_append3)
    then show ?thesis using assms(2,3) dt by (simp add: unsigned_float_def)
  qed
qed

lemma NUM_float:
  assumes "shape NUM m"
  shows "\<exists>x. float_nocomma m = Inr x"
proof -
  from NUM_shape[OF assms] obtain sg d1 d2 dt d3 where
    m: "m = sg @ d1 @ d2 @ dt @ d3" and sg: "sg = [] \<or> sg = ''-''" and d1: "d1 \<noteq> []"
    "list_all is_digit d1" and d2: "list_all (\<lambda>c. is_digit c \<or> c = CHR '','') d2"
    and dt: "dt = [] \<or> dt = ''.''" and d3: "list_all is_digit d3"
    by blast
  define D where "D = d1 @ filter (\<lambda>c. c \<noteq> CHR '','') d2"
  have D: "list_all is_digit D" "D \<noteq> []"
    using d1 d2 unfolding D_def by (auto simp: list_all_iff)
  have nc: "filter (\<lambda>c. c \<noteq> CHR '','') d1 = d1" "filter (\<lambda>c. c \<noteq> CHR '','') d3 = d3"
    using d1(2) d3 not_digit_point(4) by (auto simp: list_all_iff filter_id_conv)
  have f: "filter (\<lambda>c. c \<noteq> CHR '','') m = sg @ D @ dt @ d3"
    using m sg dt nc unfolding D_def by auto
  from unsigned_float_digits[OF D d3 dt] obtain x where x: "unsigned_float (D @ dt @ d3) = Inr x"
    by blast
  from sg show ?thesis
  proof
    assume "sg = []"
    moreover obtain c cs where c: "D = c # cs" using D(2) by (cases D) auto
    moreover have "c \<noteq> CHR ''-''" "c \<noteq> CHR ''+''" using D(1) c not_digit_point by auto
    ultimately show ?thesis using f x by (simp add: float_nocomma_def py_float_def)
  next
    assume "sg = ''-''"
    then show ?thesis using f x by (simp add: float_nocomma_def py_float_def)
  qed
qed

section \<open>Properties of the variable-charge extractor\<close>

lemma search_acc_inv:
  "search_acc r acc s = Some m \<Longrightarrow>
     shape r (whole m) \<and> new_caps_ok r (groups m) \<and> rev acc @ s = pre m @ whole m @ post m"
proof (induction s arbitrary: acc)
  case Nil
  from Nil obtain st rest where st: "ms r ([], []) = st # rest" and m: "m = mk_match acc [] st"
    by (subst (asm) search_acc.simps) (auto split: list.splits)
  have "st \<in> set (ms r ([], []))" using st by simp
  from ms_inv[OF this] obtain w new where
    "[] = w @ fst st" "shape r w" "snd st = new" "new_caps_ok r new"
    by auto
  then show ?case using m by (simp add: mk_match_def)
next
  case (Cons x xs)
  show ?case
  proof (cases "ms r (x # xs, [])")
    case Nil
    then have "search_acc r (x # acc) xs = Some m"
      using Cons.prems by (subst (asm) search_acc.simps) simp
    from Cons.IH[OF this] show ?thesis by simp
  next
    case (Cons st rest)
    then have m: "m = mk_match acc (x # xs) st"
      using Cons.prems by (subst (asm) search_acc.simps) simp
    have "st \<in> set (ms r (x # xs, []))" using Cons by simp
    from ms_inv[OF this] obtain w new where
      w: "x # xs = w @ fst st" "shape r w" "snd st = new" "new_caps_ok r new"
      by auto
    have "take (length (x # xs) - length (fst st)) (x # xs) = w"
      by (subst (1 2) w(1)) simp
    then show ?thesis using m w by (simp add: mk_match_def)
  qed
qed

lemma search_inv:
  "search r s = Some m \<Longrightarrow>
     shape r (whole m) \<and> new_caps_ok r (groups m) \<and> s = pre m @ whole m @ post m"
  using search_acc_inv[of r "[]" s m] by (simp add: search_def)

lemma search_NUM_float: "search NUM l = Some m \<Longrightarrow> \<exists>x. float_nocomma (whole m) = Inr x"
  using search_inv[of NUM l m] NUM_float by blast

lemma first_number_iff: "first_number l \<noteq> None \<longleftrightarrow> search NUM l \<noteq> None"
proof (cases "search NUM l")
  case None
  then show ?thesis by (simp add: first_number_def)
next
  case (Some m)
  with search_NUM_float[OF Some] show ?thesis by (auto simp: first_number_def)
qed

lemma set_from_line_pure:
  "set_from_line line upd v = Inr (case first_number line of None \<Rightarrow> v | Some x \<Rightarrow> upd x v)"
proof (cases "search NUM line")
  case None
  then show ?thesis by (simp add: set_from_line_def first_number_def)
next
  case (Some m)
  with search_NUM_float[OF Some] show ?thesis
    by (auto simp: set_from_line_def first_number_def)
qed

lemma vc_line_fields:
  "\<exists>v'. vc_line v l = Inr v' \<and>
     merc_order v' = (if hit kw_merc l then first_number l else merc_order v) \<and>
     recoverable_mod v' = (if hit kw_recoverable l then first_number l else recoverable_mod v) \<and>
     actual v' = (if hit kw_actual l then first_number l else actual v) \<and>
     disallowance_rs_cr v' = (if hit kw_disallowance l then first_number l else disallowance_rs_cr v) \<and>
     unrecoverable_rpkwh v' = (if hit kw_unrecoverable l then first_number l else unrecoverable_rpkwh v)"
  by (cases "first_number l")
     (simp_all add: vc_line_def set_from_line_pure bindE_def hit_def Let_def)


lemma line_value_Cons:
  "line_value kw (l # ls) =
     (case line_value kw ls of Some x \<Rightarrow> Some x | None \<Rightarrow> if hit kw l then first_number l else None)"
proof (cases "hits kw ls = []")
  case True
  then show ?thesis by (simp add: line_value_def hits_def)
next
  case False
  then have "last (hits kw ls) \<in> set (hits kw ls)" by simp
  then have "first_number (last (hits kw ls)) \<noteq> None" by (simp add: hits_def hit_def)
  then show ?thesis using False by (auto simp: line_value_def hits_def)
qed

lemma vc_lines_fields:
  "\<exists>v'. vc_lines v ls = Inr v' \<and>
     merc_order v' = (case line_value kw_merc ls of Some x \<Rightarrow> Some x | None \<Rightarrow> merc_order v) \<and>
     recoverable_mod v' =
       (case line_value kw_recoverable ls of Some x \<Rightarrow> Some x | None \<Rightarrow> recoverable_mod v) \<and>
     actual v' = (case line_value kw_actual ls of Some x \<Rightarrow> Some x | None \<Rightarrow> actual v) \<and>
     disallowance_rs_cr v' =
       (case line_value kw_disallowance ls of Some x \<Rightarrow> Some x | None \<Rightarrow> disallowance_rs_cr v) \<and>
     unrecoverable_rpkwh v' =
       (case line_value kw_unrecoverable ls of Some x \<Rightarrow> Some x | None \<Rightarrow> unrecoverable_rpkwh v)"
proof (induction ls arbitrary: v)
  case Nil
  then show ?case by (simp add: line_value_def hits_def)
next
  case (Cons l ls)
  from vc_line_fields[of v l] obtain v1 where
    v1: "vc_line v l = Inr v1"
    "merc_order v1 = (if hit kw_merc l then first_number l else merc_order v)"
    "recoverable_mod v1 = (if hit kw_recoverable l then first_number l else recoverable_mod v)"
    "actual v1 = (if hit kw_actual l then first_number l else actual v)"
    "disallowance_rs_cr v1 = (if hit kw_disallowance l then first_number l else disallowance_rs_cr v)"
    "unrecoverable_rpkwh v1 = (if hit kw_unrecoverable l then first_number l else unrecoverable_rpkwh v)"
    by blast
  from Cons.IH[of v1] obtain v' where
    v': "vc_lines v1 ls = Inr v'"
    "merc_order v' = (case line_value kw_merc ls of Some x \<Rightarrow> Some x | None \<Rightarrow> merc_order v1)"
    "recoverable_mod v' =
       (case line_value kw_recoverable ls of Some x \<Rightarrow> Some x | None \<Rightarrow> recoverable_mod v1)"
    "actual v' = (case line_value kw_actual ls of Some x \<Rightarrow> Some x | None \<Rightarrow> actual v1)"
    "disallowance_rs_cr v' =
       (case line_value kw_disallowance ls of Some x \<Rightarrow> Some x | None \<Rightarrow> disallowance_rs_cr v1)"
    "unrecoverable_rpkwh v' =
       (case line_value kw_unrecoverable ls of Some x \<Rightarrow> Some x | None \<Rightarrow> unrecoverable_rpkwh v1)"
    by blast
  have h: "\<And>kw. hit kw l \<Longrightarrow> \<exists>x. first_number l = Some x" by (auto simp: hit_def)
  have "vc_lines v (l # ls) = Inr v'" using v1(1) v'(1) by (simp add: bindE_def)
  moreover have "merc_order v' =
      (case line_value kw_merc (l # ls) of Some x \<Rightarrow> Some x | None \<Rightarrow> merc_order v)"
    using v1(2) v'(2) h[of kw_merc] by (auto simp: line_value_Cons split: option.splits)
  moreover have "recoverable_mod v' =
      (case line_value kw_recoverable (l # ls) of Some x \<Rightarrow> Some x | None \<Rightarrow> recoverable_mod v)"
    using v1(3) v'(3) h[of kw_recoverable] by (auto simp: line_value_Cons split: option.splits)
  moreover have "actual v' =
      (case line_value kw_actual (l # ls) of Some x \<Rightarrow> Some x | None \<Rightarrow> actual v)"
    using v1(4) v'(4) h[of kw_actual] by (auto simp: line_value_Cons split: option.splits)
  moreover have "disallowance_rs_cr v' =
      (case line_value kw_disallowance (l # ls) of Some x \<Rightarrow> Some x | None \<Rightarrow> disallowance_rs_cr v)"
    using v1(5) v'(5) h[of kw_disallowance] by (auto simp: line_value_Cons split: option.splits)
  moreover have "unrecoverable_rpkwh v' =
      (case line_value kw_unrecoverable (l # ls) of Some x \<Rightarrow> Some x | None \<Rightarrow> unrecoverable_rpkwh v)"
    using v1(6) v'(6) h[of kw_unrecoverable] by (auto simp: line_value_Cons split: option.splits)
  ultimately show ?case by blast
qed

lemma find_first_float_total: "\<exists>r. find_first_float pats text = Inr r"
proof (induction pats)
  case Nil
  then show ?case by simp
next
  case (Cons pat pats)
  show ?case
  proof (cases "search pat text")
    case None
    then show ?thesis using Cons by simp
  next
    case (Some m)
    show ?thesis
    proof (cases "search NUM (whole m)")
      case None
      then show ?thesis using Some Cons by simp
    next
      case (Some num)
      from search_NUM_float[OF Some] obtain x where "float_nocomma (whole num) = Inr x" by blast
      then show ?thesis using Some \<open>search pat text = Some m\<close> by simp
    qed
  qed
qed

lemma group_set:
  assumes "new_caps_ok r cs" "n \<in> must_grps r"
  shows "\<exists>g a. map_of cs n = Some g \<and> (n, a) \<in> grp_pats r \<and> shape a g"
proof -
  from assms have "n \<in> fst ` set cs" by (auto simp: new_caps_ok_def)
  then obtain g where g: "map_of cs n = Some g"
    by (metis domIff dom_map_of_conv_image_fst not_Some_eq)
  then have "(n, g) \<in> set cs" by (rule map_of_SomeD)
  with assms(1) obtain a where "(n, a) \<in> grp_pats r" "shape a g"
    by (fastforce simp: new_caps_ok_def list_all_iff)
  with g show ?thesis by blast
qed

lemma grp_ichr [simp]: "grp_pats (ichr c) = {}" "must_grps (ichr c) = {}"
  by (simp_all add: ichr_def)

lemma grp_pats_istr [simp]: "grp_pats (istr s) = {}"
  by (induction s) (auto simp: ichr_def)

lemma must_grps_istr [simp]: "must_grps (istr s) = {}"
  by (induction s) (auto simp: ichr_def)

lemma grp_pats_NUM [simp]: "grp_pats NUM = {}"
  by (simp add: NUM_def PlusG_def chr_def)

lemma disallowance_fallback_total: "\<exists>r. disallowance_fallback text = Inr r"
proof (cases "search disallowance_re text")
  case None
  then show ?thesis by (simp add: disallowance_fallback_def)
next
  case (Some m)
  from search_inv[OF Some] have ok: "new_caps_ok disallowance_re (groups m)" by simp
  have mg: "1 \<in> must_grps disallowance_re" and gp: "grp_pats disallowance_re = {(1, NUM)}"
    by (simp_all add: disallowance_re_def colon_space_def)
  from group_set[OF ok mg] gp obtain g where "map_of (groups m) 1 = Some g" "shape NUM g"
    by auto
  with NUM_float[of g] show ?thesis using Some
    by (auto simp: disallowance_fallback_def group_float_def group_def)
qed

lemma parse_vc_fields:
  "\<exists>v fm fr fa fd.
     parse_variable_charge text = Inr v \<and>
     find_first_float merc_fallback text = Inr fm \<and>
     find_first_float recoverable_fallback text = Inr fr \<and>
     find_first_float actual_fallback text = Inr fa \<and>
     disallowance_fallback text = Inr fd \<and>
     merc_order v = (case line_value kw_merc (splitlines text) of Some x \<Rightarrow> Some x | None \<Rightarrow> fm) \<and>
     recoverable_mod v =
       (case line_value kw_recoverable (splitlines text) of Some x \<Rightarrow> Some x | None \<Rightarrow> fr) \<and>
     actual v = (case line_value kw_actual (splitlines text) of Some x \<Rightarrow> Some x | None \<Rightarrow> fa) \<and>
     disallowance_rs_cr v =
       (case line_value kw_disallowance (splitlines text) of Some x \<Rightarrow> Some x | None \<Rightarrow> fd) \<and>
     unrecoverable_rpkwh v = line_value kw_unrecoverable (splitlines text)"
proof -
  from vc_lines_fields[of vc_init "splitlines text"] obtain v1 where
    v1: "vc_lines vc_init (splitlines text) = Inr v1"
    "merc_order v1 = line_value kw_merc (splitlines text)"
    "recoverable_mod v1 = line_value kw_recoverable (splitlines text)"
    "actual v1 = line_value kw_actual (splitlines text)"
    "disallowance_rs_cr v1 = line_value kw_disallowance (splitlines text)"
    "unrecoverable_rpkwh v1 = line_value kw_unrecoverable (splitlines text)"
    by (auto simp: vc_init_def split: option.splits)
  obtain fm where fm: "find_first_float merc_fallback text = Inr fm"
    using find_first_float_total by blast
  obtain fr where fr: "find_first_float recoverable_fallback text = Inr fr"
    using find_first_float_total by blast
  obtain fa where fa: "find_first_float actual_fallback text = Inr fa"
    using find_first_float_total by blast
  obtain fd where fd: "disallowance_fallback text = Inr fd"
    using disallowance_fallback_total by blast
  define v where "v = v1\<lparr>merc_order := (case merc_order v1 of Some x \<Rightarrow> Some x | None \<Rightarrow> fm),
      recoverable_mod := (case recoverable_mod v1 of Some x \<Rightarrow> Some x | None \<Rightarrow> fr),
      actual := (case actual v1 of Some x \<Rightarrow> Some x | None \<Rightarrow> fa),
      disallowance_rs_cr := (case disallowance_rs_cr v1 of Some x \<Rightarrow> Some x | None \<Rightarrow> fd)\<rparr>"
  have "vc_fallbacks text v1 = Inr v"
    unfolding vc_fallbacks_def v_def fm fr fa fd
    by (simp add: bindE_def or_else_def split: option.splits)
  then have "parse_variable_charge text = Inr v"
    by (simp add: parse_variable_charge_def v1(1) bindE_def)
  moreover have "merc_order v = (case line_value kw_merc (splitlines text) of Some x \<Rightarrow> Some x | None \<Rightarrow> fm)"
    "recoverable_mod v =
       (case line_value kw_recoverable (splitlines text) of Some x \<Rightarrow> Some x | None \<Rightarrow> fr)"
    "actual v = (case line_value kw_actual (splitlines text) of Some x \<Rightarrow> Some x | None \<Rightarrow> fa)"
    "disallowance_rs_cr v =
       (case line_value kw_disallowance (splitlines text) of Some x \<Rightarrow> Some x | None \<Rightarrow> fd)"
    "unrecoverable_rpkwh v = line_value kw_unrecoverable (splitlines text)"
    unfolding v_def using v1 by simp_all
  ultimately show ?thesis using fm fr fa fd by blast
qed

lemma hits_value:
  "hits kw ls \<noteq> [] \<Longrightarrow> \<exists>x. line_value kw ls = Some x \<and> first_number (last (hits kw ls)) = Some x"
proof -
  assume a: "hits kw ls \<noteq> []"
  then have "last (hits kw ls) \<in> set (hits kw ls)" by simp
  then have "first_number (last (hits kw ls)) \<noteq> None" by (simp add: hits_def hit_def)
  then show ?thesis using a by (auto simp: line_value_def)
qed


text \<open>
  C4 (as amended). For every input text and every variable-charge sub-field: when one or
  more lines pass the sub-field's keyword test and carry a signed decimal literal, the
  extractor returns, and the sub-field holds the first literal (thousands separators
  stripped) of the last such line. A later matching line overwrites an earlier one;
  values are never aggregated.
\<close>

theorem vc_last_matching_line_wins:
  "\<exists>v. parse_variable_charge text = Inr v \<and>
     (hits kw_merc (splitlines text) \<noteq> [] \<longrightarrow>
        merc_order v \<noteq> None \<and>
        merc_order v = first_number (last (hits kw_merc (splitlines text)))) \<and>
     (hits kw_recoverable (splitlines text) \<noteq> [] \<longrightarrow>
        recoverable_mod v \<noteq> None \<and>
        recoverable_mod v = first_number (last (hits kw_recoverable (splitlines text)))) \<and>
     (hits kw_actual (splitlines text) \<noteq> [] \<longrightarrow>
        actual v \<noteq> None \<and>
        actual v = first_number (last (hits kw_actual (splitlines text)))) \<and>
     (hits kw_disallowance (splitlines text) \<noteq> [] \<longrightarrow>
        disallowance_rs_cr v \<noteq> None \<and>
        disallowance_rs_cr v = first_number (last (hits kw_disallowance (splitlines text)))) \<and>
     (hits kw_unrecoverable (splitlines text) \<noteq> [] \<longrightarrow>
        unrecoverable_rpkwh v \<noteq> None \<and>
        unrecoverable_rpkwh v = first_number (last (hits kw_unrecoverable (splitlines text))))"
proof -
  from parse_vc_fields[of "text"] obtain v fm fr fa fd where
    v: "parse_variable_charge text = Inr v"
    "merc_order v = (case line_value kw_merc (splitlines text) of Some x \<Rightarrow> Some x | None \<Rightarrow> fm)"
    "recoverable_mod v =
       (case line_value kw_recoverable (splitlines text) of Some x \<Rightarrow> Some x | None \<Rightarrow> fr)"
    "actual v = (case line_value kw_actual (splitlines text) of Some x \<Rightarrow> Some x | None \<Rightarrow> fa)"
    "disallowance_rs_cr v =
       (case line_value kw_disallowance (splitlines text) of Some x \<Rightarrow> Some x | None \<Rightarrow> fd)"
    "unrecoverable_rpkwh v = line_value kw_unrecoverable (splitlines text)"
    by blast
  note h = hits_value[of kw_merc "splitlines text"] hits_value[of kw_recoverable "splitlines text"]
    hits_value[of kw_actual "splitlines text"] hits_value[of kw_disallowance "splitlines text"]
    hits_value[of kw_unrecoverable "splitlines text"]
  show ?thesis using v h by (intro exI[of _ v]) auto
qed
theorem vc_last_matching_line_wins_witness:
  "hits kw_merc (splitlines (''Variable Charge (MERC Order): 4.10'' @ [CHR 0x0A] @
                             ''Variable Charge (MERC Order) last period: 3.95'')) \<noteq> [] \<and>
   (\<exists>v. parse_variable_charge (''Variable Charge (MERC Order): 4.10'' @ [CHR 0x0A] @
                                ''Variable Charge (MERC Order) last period: 3.95'') = Inr v \<and>
        merc_order v = Some 3.95)"
proof -
  let ?T = "''Variable Charge (MERC Order): 4.10'' @ [CHR 0x0A] @
            ''Variable Charge (MERC Order) last period: 3.95''"
  have h: "hits kw_merc (splitlines ?T) =
      [''Variable Charge (MERC Order): 4.10'', ''Variable Charge (MERC Order) last period: 3.95'']"
    by code_simp
  have f: "first_number ''Variable Charge (MERC Order) last period: 3.95'' = Some 3.95"
    by code_simp
  from vc_last_matching_line_wins[of ?T] obtain v where
    "parse_variable_charge ?T = Inr v"
    "hits kw_merc (splitlines ?T) \<noteq> [] \<longrightarrow>
       merc_order v \<noteq> None \<and> merc_order v = first_number (last (hits kw_merc (splitlines ?T)))"
    by blast
  then show ?thesis unfolding h using f by simp
qed

theorem vc_first_line_does_not_win:
  "first_number (hd (hits kw_merc (splitlines
      (''Variable Charge (MERC Order): 4.10'' @ [CHR 0x0A] @
       ''Variable Charge (MERC Order) last period: 3.95'')))) = Some 4.1 \<and>
   map_sum id merc_order (parse_variable_charge
      (''Variable Charge (MERC Order): 4.10'' @ [CHR 0x0A] @
       ''Variable Charge (MERC Order) last period: 3.95'')) = Inr (Some 3.95)"
  by code_simp

lemma first_number_None: "search NUM s = None \<Longrightarrow> first_number s = None"
  by (simp add: first_number_def)

lemma first_number_Some:
  "search NUM s = Some num \<Longrightarrow> \<exists>x. float_nocomma (whole num) = Inr x \<and> first_number s = Some x"
  using search_NUM_float[of s num] by (auto simp: first_number_def)

lemma find_first_float_pure: "find_first_float pats text = Inr (pattern_value pats text)"
proof (induction pats)
  case Nil
  then show ?case by simp
next
  case (Cons pat pats)
  show ?case
  proof (cases "search pat text")
    case None
    then show ?thesis using Cons by simp
  next
    case (Some m)
    note m = this
    show ?thesis
    proof (cases "search NUM (whole m)")
      case None
      then show ?thesis using m Cons first_number_None[OF None] by simp
    next
      case (Some num)
      from first_number_Some[OF Some] obtain x where
        "float_nocomma (whole num) = Inr x" "first_number (whole m) = Some x" by blast
      then show ?thesis using m Some by simp
    qed
  qed
qed

lemma disallowance_fallback_pure: "disallowance_fallback text = Inr (disallowance_value text)"
proof (cases "search disallowance_re text")
  case None
  then show ?thesis by (simp add: disallowance_fallback_def disallowance_value_def)
next
  case (Some m)
  from search_inv[OF Some] have ok: "new_caps_ok disallowance_re (groups m)" by simp
  have mg: "1 \<in> must_grps disallowance_re" and gp: "grp_pats disallowance_re = {(1, NUM)}"
    by (simp_all add: disallowance_re_def colon_space_def)
  from group_set[OF ok mg] gp obtain g where g: "map_of (groups m) 1 = Some g" "shape NUM g"
    by auto
  from NUM_float[OF g(2)] obtain x where "float_nocomma g = Inr x" by blast
  then show ?thesis using Some g(1)
    by (simp add: disallowance_fallback_def disallowance_value_def group_float_def group_def
        tok_val_def)
qed

lemma parse_vc_values:
  "\<exists>v. parse_variable_charge text = Inr v \<and>
     merc_order v =
       (case line_value kw_merc (splitlines text) of
          Some x \<Rightarrow> Some x | None \<Rightarrow> pattern_value merc_fallback text) \<and>
     recoverable_mod v =
       (case line_value kw_recoverable (splitlines text) of
          Some x \<Rightarrow> Some x | None \<Rightarrow> pattern_value recoverable_fallback text) \<and>
     actual v =
       (case line_value kw_actual (splitlines text) of
          Some x \<Rightarrow> Some x | None \<Rightarrow> pattern_value actual_fallback text) \<and>
     disallowance_rs_cr v =
       (case line_value kw_disallowance (splitlines text) of
          Some x \<Rightarrow> Some x | None \<Rightarrow> disallowance_value text) \<and>
     unrecoverable_rpkwh v = line_value kw_unrecoverable (splitlines text)"
  using parse_vc_fields[of "text"]
  by (auto simp: find_first_float_pure disallowance_fallback_pure)

text \<open>
  C5 (as amended). For every input text the extractor returns. The MERC-order,
  recoverable, actual and disallowance figures follow the precedence: the value left by
  the line scan if there is one; only otherwise the value found by the sub-field's
  whole-text fallback patterns, tried in their order; only when both fail, null. So when
  a line value and a fallback value are both present, the line value wins. The
  unrecoverable figure has no fallback pattern: it is the line value or null.
\<close>

theorem vc_precedence:
  "\<exists>v. parse_variable_charge text = Inr v \<and>
     merc_order v =
       (case line_value kw_merc (splitlines text) of
          Some x \<Rightarrow> Some x | None \<Rightarrow> pattern_value merc_fallback text) \<and>
     recoverable_mod v =
       (case line_value kw_recoverable (splitlines text) of
          Some x \<Rightarrow> Some x | None \<Rightarrow> pattern_value recoverable_fallback text) \<and>
     actual v =
       (case line_value kw_actual (splitlines text) of
          Some x \<Rightarrow> Some x | None \<Rightarrow> pattern_value actual_fallback text) \<and>
     disallowance_rs_cr v =
       (case line_value kw_disallowance (splitlines text) of
          Some x \<Rightarrow> Some x | None \<Rightarrow> disallowance_value text) \<and>
     unrecoverable_rpkwh v = line_value kw_unrecoverable (splitlines text)"
  by (rule parse_vc_values)

text \<open>
  A line whose first literal (1) differs from the literal the fallback pattern
  reaches (3.5), where the line value wins; and a report with every figure on the line
  below its label, where only the fallback patterns reach the four figures that have one
  and the unrecoverable figure stays null; a third input reaches the second pattern of the
  actual figure.
\<close>

theorem vc_precedence_witness:
  "pattern_value merc_fallback ''1) Variable Charge MERC Rs/kWh: 3.5'' = Some 3.5 \<and>
   (\<exists>v. parse_variable_charge ''1) Variable Charge MERC Rs/kWh: 3.5'' = Inr v \<and>
        merc_order v = Some 1) \<and>
   (\<exists>v. parse_variable_charge
          (''Variable Charge (MERC) Rs/kWh:'' @ [CHR 0x0A] @ ''3.5'' @ [CHR 0x0A] @
           ''Variable Charge (Recoverable) Rs/kWh:'' @ [CHR 0x0A] @ ''3.1'' @ [CHR 0x0A] @
           ''Variable Charge (Actual) Rs/kWh:'' @ [CHR 0x0A] @ ''3.9'' @ [CHR 0x0A] @
           ''Fuel cost disallowance Rs.Cr:'' @ [CHR 0x0A] @ ''12.5'' @ [CHR 0x0A] @
           ''Variable Charge unrecoverable Rs/kWh:'' @ [CHR 0x0A] @ ''0.25'') = Inr v \<and>
        merc_order v = Some 3.5 \<and> recoverable_mod v = Some 3.1 \<and> actual v = Some 3.9 \<and>
        disallowance_rs_cr v = Some 12.5 \<and> unrecoverable_rpkwh v = None) \<and>
   (\<exists>v. parse_variable_charge (''Actual Energy Charge Rs/kWh:'' @ [CHR 0x0A] @ ''3.7'') = Inr v \<and>
        actual v = Some 3.7)"
proof -
  let ?A = "''1) Variable Charge MERC Rs/kWh: 3.5''"
  let ?C = "''Actual Energy Charge Rs/kWh:'' @ [CHR 0x0A] @ ''3.7''"
  have d1: "line_value kw_actual (splitlines ?C) = None" by code_simp
  have d2: "pattern_value actual_fallback ?C = Some 3.7" by code_simp
  from vc_precedence[of ?C] have C: "\<exists>v. parse_variable_charge ?C = Inr v \<and> actual v = Some 3.7"
    unfolding d1 d2 by auto
  let ?B = "''Variable Charge (MERC) Rs/kWh:'' @ [CHR 0x0A] @ ''3.5'' @ [CHR 0x0A] @
           ''Variable Charge (Recoverable) Rs/kWh:'' @ [CHR 0x0A] @ ''3.1'' @ [CHR 0x0A] @
           ''Variable Charge (Actual) Rs/kWh:'' @ [CHR 0x0A] @ ''3.9'' @ [CHR 0x0A] @
           ''Fuel cost disallowance Rs.Cr:'' @ [CHR 0x0A] @ ''12.5'' @ [CHR 0x0A] @
           ''Variable Charge unrecoverable Rs/kWh:'' @ [CHR 0x0A] @ ''0.25''"
  have a1: "pattern_value merc_fallback ?A = Some 3.5" by code_simp
  have a2: "line_value kw_merc (splitlines ?A) = Some 1" by code_simp
  have b1: "line_value kw_merc (splitlines ?B) = None" by code_simp
  have b2: "line_value kw_recoverable (splitlines ?B) = None" by code_simp
  have b3: "line_value kw_actual (splitlines ?B) = None" by code_simp
  have b4: "line_value kw_disallowance (splitlines ?B) = None" by code_simp
  have b5: "line_value kw_unrecoverable (splitlines ?B) = None" by code_simp
  have c1: "pattern_value merc_fallback ?B = Some 3.5" by code_simp
  have c2: "pattern_value recoverable_fallback ?B = Some 3.1" by code_simp
  have c3: "pattern_value actual_fallback ?B = Some 3.9" by code_simp
  have c4: "disallowance_value ?B = Some 12.5" by code_simp
  from vc_precedence[of ?A] a2 have "\<exists>v. parse_variable_charge ?A = Inr v \<and> merc_order v = Some 1"
    by auto
  moreover from vc_precedence[of ?B]
  have "\<exists>v. parse_variable_charge ?B = Inr v \<and>
        merc_order v = Some 3.5 \<and> recoverable_mod v = Some 3.1 \<and> actual v = Some 3.9 \<and>
        disallowance_rs_cr v = Some 12.5 \<and> unrecoverable_rpkwh v = None"
    unfolding b1 b2 b3 b4 b5 c1 c2 c3 c4 by simp
  ultimately show ?thesis using a1 C by blast
qed

text \<open>
  The claim as stated fails for the unrecoverable figure. With the label on one line and
  the figure on the next, no line yields a value; a whole-text pattern of the siblings'
  form finds 0.25, and the recoverable figure, whose fallback pattern also matches the
  word, takes it; the unrecoverable figure stays null.
\<close>

theorem unrecoverable_has_no_fallback:
  "map_sum id (\<lambda>v. (recoverable_mod v, unrecoverable_rpkwh v))
     (parse_variable_charge (''Variable Charge unrecoverable Rs/kWh:'' @ [CHR 0x0A] @ ''0.25''))
     = Inr (Some 0.25, None) \<and>
   pattern_value
     [seqs [istr ''variable charge'', Star dot, istr ''unrecoverable'', Star dot, rs_kwh_tail]]
     (''Variable Charge unrecoverable Rs/kWh:'' @ [CHR 0x0A] @ ''0.25'') = Some 0.25"
  by code_simp

section \<open>Properties of the specific-coal-consumption extractor\<close>

text \<open>
  C2. The claim says that no extractor raises on a numeric conversion. The combined
  pattern of parse_sp_coal captures \<open>[\d\.]+\<close> and converts the capture unguarded: on a
  sentence that ends with a full stop after the second figure the capture is \<open>0.65.\<close>,
  the conversion raises ValueError and the exception leaves parse_sp_coal.
\<close>

theorem parse_sp_coal_raises:
  "parse_sp_coal ''Sp coal consumption allowable vs actual: 0.62 and 0.65.'' = Inl ValueError"
  by code_simp

section \<open>Properties of the coal-source extractor\<close>

lemma first_ok_mem: "first_ok adv s sts = Some st \<Longrightarrow> st \<in> set sts"
  by (auto simp: first_ok_def find_Some_iff)

lemma finditer_acc_shape:
  "m \<in> set (finditer_acc r adv acc s) \<Longrightarrow> shape r (whole m)"
proof (induction r adv acc s rule: finditer_acc.induct)
  case (1 r adv acc s)
  show ?case
  proof (cases "first_ok adv s (ms r (s, []))")
    case None
    show ?thesis
    proof (cases s)
      case Nil
      with None "1.prems" show ?thesis by (subst (asm) finditer_acc.simps) simp
    next
      case (Cons x xs)
      with None "1.prems" have "m \<in> set (finditer_acc r False (x # acc) xs)"
        by (subst (asm) finditer_acc.simps) simp
      from "1.IH"(1)[OF None Cons this] show ?thesis .
    qed
  next
    case (Some st)
    from first_ok_mem[OF Some] ms_inv[of st r "(s, [])"] obtain w where
      w: "s = w @ fst st" "shape r w"
      by auto
    have tk: "take (length s - length (fst st)) s = w" by (subst (1 2) w(1)) simp
    from Some "1.prems" consider (here) "m = mk_match acc s st"
      | (next1) "length (fst st) < length s" "m \<in> set (finditer_acc r False [] (fst st))"
      | (next2) "\<not> length (fst st) < length s" "\<not> adv" "m \<in> set (finditer_acc r True [] s)"
      by (subst (asm) finditer_acc.simps) (auto split: if_splits)
    then show ?thesis
    proof cases
      case here
      then show ?thesis using tk w(2) by (simp add: mk_match_def)
    next
      case next1
      from "1.IH"(2)[OF Some next1] show ?thesis .
    next
      case next2
      from "1.IH"(3)[OF Some next2] show ?thesis .
    qed
  qed
qed

lemma findall_NUM_float: "t \<in> set (findall NUM l) \<Longrightarrow> \<exists>x. float_nocomma t = Inr x"
  using finditer_acc_shape[of _ NUM False "[]" l] NUM_float
  by (auto simp: findall_def finditer_def)

lemma num_at_pure: "num_at (findall NUM l) i = Inr (nth_val (findall NUM l) i)"
proof (cases "i < length (findall NUM l)")
  case True
  then have "findall NUM l ! i \<in> set (findall NUM l)" by simp
  from findall_NUM_float[OF this] show ?thesis using True
    by (auto simp: num_at_def nth_val_def tok_val_def)
next
  case False
  then show ?thesis by (simp add: num_at_def nth_val_def)
qed

lemma coal_row_fields:
  "coal_row l = \<lparr>name = strip (re_sub name_sep '' '' l),
      GCV_ARB = nth_val (findall NUM l) 0, Landed_RsPerMT = nth_val (findall NUM l) 1,
      Eff_RsPerMkcal = nth_val (findall NUM l) 2, Pct_share = nth_val (findall NUM l) 3\<rparr>"
  by (simp add: coal_row_def num_at_pure bindE_def Let_def)


lemma ms_plus_sym_nonempty: "p x \<Longrightarrow> ms (PlusG (Sym p)) (x # xs, c) \<noteq> []"
proof -
  assume "p x"
  then have "ms (PlusG (Sym p)) (x # xs, c) = ms (Star (Sym p)) (xs, c)"
    by (simp add: PlusG_def ms.simps(2,3))
  also have "\<dots> \<noteq> []" by (subst ms.simps) simp
  finally show ?thesis .
qed

lemma ms_plus_sym_shorter:
  assumes "st \<in> set (ms (PlusG (Sym p)) (s, c))"
  shows "length (fst st) < length s \<and> set (fst st) \<subseteq> set s"
proof -
  from ms_inv[OF assms] obtain w where w: "s = w @ fst st" "shape (PlusG (Sym p)) w" by auto
  from plus_sym_shape[OF w(2)] have "w \<noteq> []" by simp
  moreover have "length s = length w + length (fst st)" "set s = set w \<union> set (fst st)"
    using arg_cong[OF w(1), of length] arg_cong[OF w(1), of set] by simp_all
  ultimately show ?thesis by auto
qed

lemma first_ok_plus_sym:
  "first_ok adv s (ms (PlusG (Sym p)) (s, [])) = None \<Longrightarrow> s = x # xs \<Longrightarrow> \<not> p x"
proof
  assume n: "first_ok adv s (ms (PlusG (Sym p)) (s, [])) = None" and s: "s = x # xs" and "p x"
  from ms_plus_sym_nonempty[of p x xs "[]"] \<open>p x\<close> obtain st where
    st: "st \<in> set (ms (PlusG (Sym p)) (s, []))"
    using s by (cases "ms (PlusG (Sym p)) (x # xs, [])") auto
  from ms_plus_sym_shorter[OF st] have "length (fst st) < length s" by simp
  moreover from n have "\<not> (\<exists>st. st \<in> set (ms (PlusG (Sym p)) (s, [])) \<and>
      (\<not> adv \<or> length (fst st) < length s))"
    unfolding first_ok_def find_None_iff by blast
  ultimately show False using st by blast
qed

lemma sub_acc_plus_sym:
  "set (sub_acc (PlusG (Sym p)) repl adv s) \<subseteq> {c \<in> set s. \<not> p c} \<union> set repl"
proof (induction "PlusG (Sym p)" repl adv s rule: sub_acc.induct)
  case (1 repl adv s)
  show ?case
  proof (cases "first_ok adv s (ms (PlusG (Sym p)) (s, []))")
    case None
    show ?thesis
    proof (cases s)
      case Nil
      with None show ?thesis by (subst sub_acc.simps) simp
    next
      case (Cons x xs)
      from first_ok_plus_sym[OF None Cons] have "\<not> p x" .
      moreover have "sub_acc (PlusG (Sym p)) repl adv s = x # sub_acc (PlusG (Sym p)) repl False xs"
        using None Cons by (subst sub_acc.simps) simp
      ultimately show ?thesis using "1.hyps"(1)[OF None Cons] Cons by auto
    qed
  next
    case (Some st)
    from ms_plus_sym_shorter[OF first_ok_mem[OF Some]] have
      sh: "length (fst st) < length s" "set (fst st) \<subseteq> set s" by simp_all
    have "sub_acc (PlusG (Sym p)) repl adv s = repl @ sub_acc (PlusG (Sym p)) repl False (fst st)"
      using Some sh(1) by (subst sub_acc.simps) simp
    then show ?thesis using "1.hyps"(2)[OF Some sh(1)] sh(2) by auto
  qed
qed

lemma strip_subset: "set (strip s) \<subseteq> set s"
proof -
  have "set (strip s) \<subseteq> set (rev (dropWhile is_space s))"
    unfolding strip_def using set_dropWhileD by fastforce
  also have "\<dots> \<subseteq> set s" using set_dropWhileD by fastforce
  finally show ?thesis .
qed

lemma strip_ends: "strip s \<noteq> [] \<Longrightarrow> \<not> is_space (hd (strip s)) \<and> \<not> is_space (last (strip s))"
proof -
  define t where "t = dropWhile is_space s"
  define u where "u = dropWhile is_space (rev t)"
  assume ne: "strip s \<noteq> []"
  have st: "strip s = rev u" by (simp add: strip_def t_def u_def)
  with ne have u: "u \<noteq> []" by simp
  then have t: "t \<noteq> []" unfolding u_def by auto
  have "\<not> is_space (hd u)" using u unfolding u_def by (rule hd_dropWhile)
  then have l: "\<not> is_space (last (strip s))" using u st by (simp add: last_rev)
  have "\<not> is_space (hd t)" using t unfolding t_def by (rule hd_dropWhile)
  moreover have "last u = last (rev t)"
  proof -
    obtain a where "rev t = a @ u" unfolding u_def
      by (metis takeWhile_dropWhile_id)
    then show ?thesis using u by simp
  qed
  ultimately have "\<not> is_space (hd (strip s))" using st u t by (simp add: hd_rev last_rev)
  with l show ?thesis by simp
qed


lemma finditer_acc_concat:
  "\<exists>tl. rev acc @ s = concat (map (\<lambda>m. pre m @ whole m) (finditer_acc r adv acc s)) @ tl"
proof (induction r adv acc s rule: finditer_acc.induct)
  case (1 r adv acc s)
  show ?case
  proof (cases "first_ok adv s (ms r (s, []))")
    case None
    show ?thesis
    proof (cases s)
      case Nil
      with None have "finditer_acc r adv acc s = []" by (subst finditer_acc.simps) simp
      then show ?thesis by simp
    next
      case (Cons x xs)
      with None have "finditer_acc r adv acc s = finditer_acc r False (x # acc) xs"
        by (subst finditer_acc.simps) simp
      then show ?thesis using "1.IH"(1)[OF None Cons] Cons by simp
    qed
  next
    case (Some st)
    from first_ok_mem[OF Some] ms_inv[of st r "(s, [])"] obtain w where
      w: "s = w @ fst st" "shape r w"
      by auto
    have tk: "take (length s - length (fst st)) s = w" by (subst (1 2) w(1)) simp
    have pw: "pre (mk_match acc s st) @ whole (mk_match acc s st) = rev acc @ w"
      using tk by (simp add: mk_match_def)
    consider (a) "length (fst st) < length s"
      | (b) "\<not> length (fst st) < length s" "\<not> adv"
      | (c) "\<not> length (fst st) < length s" "adv"
      by blast
    then show ?thesis
    proof cases
      case a
      define C where "C = concat (map (\<lambda>m. pre m @ whole m) (finditer_acc r False [] (fst st)))"
      have "finditer_acc r adv acc s = mk_match acc s st # finditer_acc r False [] (fst st)"
        using a Some by (subst finditer_acc.simps) simp
      then have c: "concat (map (\<lambda>m. pre m @ whole m) (finditer_acc r adv acc s)) = (rev acc @ w) @ C"
        using pw by (simp add: C_def)
      from "1.IH"(2)[OF Some a] obtain tl where tl: "fst st = C @ tl"
        unfolding C_def by auto
      have "rev acc @ s = (rev acc @ w) @ fst st" by (subst w(1)) simp
      also have "\<dots> = ((rev acc @ w) @ C) @ tl" by (subst tl) simp
      finally show ?thesis unfolding c[symmetric] by blast
    next
      case b
      define C where "C = concat (map (\<lambda>m. pre m @ whole m) (finditer_acc r True [] s))"
      have "finditer_acc r adv acc s = mk_match acc s st # finditer_acc r True [] s"
        using b Some by (subst finditer_acc.simps) simp
      then have c: "concat (map (\<lambda>m. pre m @ whole m) (finditer_acc r adv acc s)) = (rev acc @ w) @ C"
        using pw by (simp add: C_def)
      from "1.IH"(3)[OF Some b] obtain tl where tl: "s = C @ tl"
        unfolding C_def by auto
      have "length s = length w + length (fst st)" using arg_cong[OF w(1), of length] by simp
      with b(1) have w0: "w = []" by simp
      have "rev acc @ s = ((rev acc @ w) @ C) @ tl" unfolding w0 by (subst tl) simp
      then show ?thesis unfolding c[symmetric] by blast
    next
      case c
      then have "finditer_acc r adv acc s = [mk_match acc s st]"
        using Some by (subst finditer_acc.simps) simp
      then have "concat (map (\<lambda>m. pre m @ whole m) (finditer_acc r adv acc s)) = rev acc @ w"
        using pw by simp
      moreover have "rev acc @ s = (rev acc @ w) @ fst st" by (subst w(1)) simp
      ultimately show ?thesis by metis
    qed
  qed
qed

lemma findall_in_order:
  "\<exists>gaps tl. length gaps = length (findall r s) \<and>
      s = concat (map (\<lambda>(g, t). g @ t) (zip gaps (findall r s))) @ tl"
proof -
  from finditer_acc_concat[of "[]" s r False] obtain tl where
    tl: "s = concat (map (\<lambda>m. pre m @ whole m) (finditer r s)) @ tl"
    by (auto simp: finditer_def)
  have "zip (map pre (finditer r s)) (findall r s) = map (\<lambda>m. (pre m, whole m)) (finditer r s)"
    by (simp add: findall_def zip_map_map zip_same_conv_map)
  then have "concat (map (\<lambda>(g, t). g @ t) (zip (map pre (finditer r s)) (findall r s))) =
      concat (map (\<lambda>m. pre m @ whole m) (finditer r s))"
    by (simp add: comp_def)
  with tl have "s = concat (map (\<lambda>(g, t). g @ t) (zip (map pre (finditer r s)) (findall r s))) @ tl"
    by simp
  moreover have "length (map pre (finditer r s)) = length (findall r s)" by (simp add: findall_def)
  ultimately show ?thesis by blast
qed

lemma coal_name_chars:
  "list_all (\<lambda>c. \<not> is_digit c \<and> c \<notin> set [CHR ''-'', CHR ''.'', CHR '','', CHR ''|'', CHR 0x09])
     (name (coal_row l))"
proof -
  let ?sep = is_name_sep
  have "set (name (coal_row l)) \<subseteq> set (re_sub name_sep '' '' l)"
    using strip_subset by (simp add: coal_row_fields)
  also have "\<dots> \<subseteq> {c \<in> set l. \<not> ?sep c} \<union> set '' ''"
    unfolding re_sub_def name_sep_def by (rule sub_acc_plus_sym)
  finally have sub: "set (name (coal_row l)) \<subseteq> {c \<in> set l. \<not> ?sep c} \<union> set '' ''" .
  have sp: "\<not> is_digit CHR '' ''" by (simp add: is_digit_def)
  have "\<not> is_digit c \<and> c \<notin> set [CHR ''-'', CHR ''.'', CHR '','', CHR ''|'', CHR 0x09]"
    if c: "c \<in> set (name (coal_row l))" for c
  proof -
    from c sub consider "\<not> ?sep c" | "c = CHR '' ''" by auto
    then show ?thesis
    proof cases
      case 1
      then show ?thesis by (simp add: is_name_sep_def)
    next
      case 2
      then show ?thesis using sp by simp
    qed
  qed
  then show ?thesis unfolding list_all_iff by blast
qed


lemma sub_acc_plus_sym_keeps:
  "{c \<in> set s. \<not> p c} \<subseteq> set (sub_acc (PlusG (Sym p)) repl adv s)"
proof (induction "PlusG (Sym p)" repl adv s rule: sub_acc.induct)
  case (1 repl adv s)
  show ?case
  proof (cases "first_ok adv s (ms (PlusG (Sym p)) (s, []))")
    case None
    show ?thesis
    proof (cases s)
      case Nil
      then show ?thesis by simp
    next
      case (Cons x xs)
      have "sub_acc (PlusG (Sym p)) repl adv s = x # sub_acc (PlusG (Sym p)) repl False xs"
        using None Cons by (subst sub_acc.simps) simp
      then show ?thesis using "1.hyps"(1)[OF None Cons] Cons by auto
    qed
  next
    case (Some st)
    from ms_inv[OF first_ok_mem[OF Some]] obtain w where
      w: "s = w @ fst st" "shape (PlusG (Sym p)) w" by auto
    from plus_sym_shape[OF w(2)] have pw: "w \<noteq> []" "list_all p w" by simp_all
    have len: "length s = length w + length (fst st)" and st: "set s = set w \<union> set (fst st)"
      using arg_cong[OF w(1), of length] arg_cong[OF w(1), of set] by simp_all
    have sh: "length (fst st) < length s" using len pw(1) by simp
    have "sub_acc (PlusG (Sym p)) repl adv s = repl @ sub_acc (PlusG (Sym p)) repl False (fst st)"
      using Some sh by (subst sub_acc.simps) simp
    moreover have "{c \<in> set s. \<not> p c} \<subseteq> {c \<in> set (fst st). \<not> p c}"
      using st pw(2) by (auto simp: list_all_iff)
    ultimately show ?thesis using "1.hyps"(2)[OF Some sh] by auto
  qed
qed

lemma dropWhile_keeps: "{x \<in> set xs. \<not> P x} \<subseteq> set (dropWhile P xs)"
  by (induction xs) auto

lemma strip_keeps: "{c \<in> set s. \<not> is_space c} \<subseteq> set (strip s)"
proof -
  have "{c \<in> set s. \<not> is_space c} \<subseteq> {c \<in> set (rev (dropWhile is_space s)). \<not> is_space c}"
    using dropWhile_keeps[of s is_space] by auto
  also have "\<dots> \<subseteq> set (dropWhile is_space (rev (dropWhile is_space s)))"
    by (rule dropWhile_keeps)
  finally show ?thesis by (simp add: strip_def)
qed

lemma coal_name_keeps:
  "list_all (\<lambda>c. is_digit c \<or> c \<in> set [CHR ''-'', CHR ''.'', CHR '','', CHR ''|''] \<or> is_space c \<or>
                c \<in> set (name (coal_row l))) l"
proof -
  let ?sep = is_name_sep
  have k: "{c \<in> set l. \<not> ?sep c} \<subseteq> set (re_sub name_sep '' '' l)"
    unfolding re_sub_def name_sep_def by (rule sub_acc_plus_sym_keeps)
  have "c \<in> set (name (coal_row l))"
    if "c \<in> set l" "\<not> is_digit c" "c \<notin> set [CHR ''-'', CHR ''.'', CHR '','', CHR ''|'']" "\<not> is_space c" for c
  proof -
    have "c \<noteq> CHR 0x09" "c \<noteq> CHR '' ''" using that(4) by (auto simp: is_space_def)
    with that have "c \<in> {c \<in> set l. \<not> ?sep c}" by (simp add: is_name_sep_def)
    with k have "c \<in> set (re_sub name_sep '' '' l)" by blast
    with that(4) strip_keeps[of "re_sub name_sep '' '' l"] show ?thesis
      by (auto simp: coal_row_fields)
  qed
  then show ?thesis unfolding list_all_iff by blast
qed


lemma ms_star_sym_hd:
  "\<exists>rest. ms (Star (Sym p)) (s, c) = (dropWhile p s, c) # rest"
proof (induction s)
  case Nil
  show ?case by (subst ms.simps) (simp add: ms.simps(2))
next
  case (Cons x xs)
  show ?case
  proof (cases "p x")
    case True
    then have "ms (Star (Sym p)) (x # xs, c) = ms (Star (Sym p)) (xs, c) @ [(x # xs, c)]"
      by (subst ms.simps) (simp add: ms.simps(2))
    with Cons True show ?thesis by auto
  next
    case False
    then have "ms (Star (Sym p)) (x # xs, c) = [(x # xs, c)]"
      by (subst ms.simps) (simp add: ms.simps(2))
    with False show ?thesis by simp
  qed
qed

lemma sub_acc_plus_sym_Nil: "sub_acc (PlusG (Sym p)) repl False [] = []"
  by (subst sub_acc.simps) (simp add: PlusG_def ms.simps(2,3) first_ok_def)

lemma sub_acc_plus_sym_skip:
  "\<not> p x \<Longrightarrow> sub_acc (PlusG (Sym p)) repl False (x # xs) = x # sub_acc (PlusG (Sym p)) repl False xs"
  by (subst sub_acc.simps) (simp add: PlusG_def ms.simps(2,3) first_ok_def)

lemma sub_acc_plus_sym_run:
  assumes "p x"
  shows "sub_acc (PlusG (Sym p)) repl False (x # xs) =
           repl @ sub_acc (PlusG (Sym p)) repl False (dropWhile p xs)"
proof -
  from ms_star_sym_hd[of p xs "[]"] obtain rest where
    r: "ms (Star (Sym p)) (xs, []) = (dropWhile p xs, []) # rest" by blast
  have m: "ms (PlusG (Sym p)) (x # xs, []) = (dropWhile p xs, []) # rest"
    using assms r by (simp add: PlusG_def ms.simps(2,3))
  have f: "first_ok False (x # xs) (ms (PlusG (Sym p)) (x # xs, [])) = Some (dropWhile p xs, [])"
    unfolding m by (simp add: first_ok_def)
  have l: "length (dropWhile p xs) < Suc (length xs)"
    using length_dropWhile_le[of p xs] by simp
  show ?thesis by (subst sub_acc.simps) (simp add: f l)
qed

lemma re_sub_squeeze: "re_sub (PlusG (Sym p)) '' '' s = squeeze p s"
  unfolding re_sub_def
proof (induction p s rule: squeeze.induct)
  case (1 p)
  show ?case by (simp add: sub_acc_plus_sym_Nil)
next
  case (2 p x xs)
  show ?case
  proof (cases "p x")
    case True
    with 2 show ?thesis by (simp add: sub_acc_plus_sym_run)
  next
    case False
    with 2 show ?thesis by (simp add: sub_acc_plus_sym_skip)
  qed
qed

lemma strip_decomp: "\<exists>a b. s = a @ strip s @ b \<and> list_all is_space a \<and> list_all is_space b"
proof -
  define t where "t = dropWhile is_space s"
  define u where "u = dropWhile is_space (rev t)"
  define c where "c = takeWhile is_space (rev t)"
  have "rev t = c @ u" by (simp add: c_def u_def)
  then have "rev (rev t) = rev (c @ u)" by (rule arg_cong)
  then have t: "t = rev u @ rev c" by simp
  have st: "strip s = rev u" by (simp add: strip_def t_def u_def)
  have "s = takeWhile is_space s @ t" by (simp add: t_def)
  also have "\<dots> = takeWhile is_space s @ strip s @ rev c" unfolding st by (subst t) simp
  finally have "s = takeWhile is_space s @ strip s @ rev c" .
  moreover have "list_all is_space (takeWhile is_space s)" "list_all is_space (rev c)"
    unfolding c_def list_all_iff using set_takeWhileD by fastforce+
  ultimately show ?thesis by blast
qed

text \<open>
  C6 (as amended). For every data row: the numeric tokens are the matches of the number
  pattern in left-to-right order, every one of them converts, and the first four are
  assigned by position to gross calorific value, landed cost, effective cost and
  percentage share, a missing position being null. The name is the row with every
  maximal run of digits, hyphens, points, commas, bars, tabs and spaces replaced by one
  space, the other characters kept in their order, and the white space at the two ends
  taken off: it holds none of those characters but single spaces, and every other character of the row, other
  punctuation included, stays in it. The row of the claim parses as stated, alone and
  below a header line.
\<close>

theorem coal_row_positional:
  "GCV_ARB (coal_row l) = nth_val (findall NUM l) 0 \<and>
   Landed_RsPerMT (coal_row l) = nth_val (findall NUM l) 1 \<and>
   Eff_RsPerMkcal (coal_row l) = nth_val (findall NUM l) 2 \<and>
   Pct_share (coal_row l) = nth_val (findall NUM l) 3 \<and>
   list_all (\<lambda>t. tok_val t \<noteq> None) (findall NUM l) \<and>
   name (coal_row l) = strip (squeeze is_name_sep l) \<and>
   (\<exists>a b. squeeze is_name_sep l = a @ name (coal_row l) @ b \<and>
          list_all is_space a \<and> list_all is_space b) \<and>
   (\<exists>gaps tl. length gaps = length (findall NUM l) \<and>
      l = concat (map (\<lambda>(g, t). g @ t) (zip gaps (findall NUM l))) @ tl) \<and>
   list_all (\<lambda>c. \<not> is_digit c \<and> c \<notin> set [CHR ''-'', CHR ''.'', CHR '','', CHR ''|'', CHR 0x09])
     (name (coal_row l)) \<and>
   list_all (\<lambda>c. is_digit c \<or> c \<in> set [CHR ''-'', CHR ''.'', CHR '','', CHR ''|''] \<or> is_space c \<or>
                c \<in> set (name (coal_row l))) l \<and>
   (name (coal_row l) = [] \<or>
      \<not> (is_space (hd (name (coal_row l))) \<or> is_space (last (name (coal_row l))))) \<and>
   coal_row ''Adani  |  3850  4200.50  1.25  18.3'' =
     \<lparr>name = ''Adani'', GCV_ARB = Some 3850, Landed_RsPerMT = Some 4200.50,
      Eff_RsPerMkcal = Some 1.25, Pct_share = Some 18.3\<rparr> \<and>
   parse_coal_sources (''Coal source | GCV (ARB) | Landed cost | Eff. cost | % share'' @ [CHR 0x0A] @
                       ''Adani  |  3850  4200.50  1.25  18.3'') =
     [\<lparr>name = ''Adani'', GCV_ARB = Some 3850, Landed_RsPerMT = Some 4200.50,
       Eff_RsPerMkcal = Some 1.25, Pct_share = Some 18.3\<rparr>]"
proof -
  have 1: "GCV_ARB (coal_row l) = nth_val (findall NUM l) 0"
    "Landed_RsPerMT (coal_row l) = nth_val (findall NUM l) 1"
    "Eff_RsPerMkcal (coal_row l) = nth_val (findall NUM l) 2"
    "Pct_share (coal_row l) = nth_val (findall NUM l) 3"
    by (simp_all add: coal_row_fields)
  have 2: "list_all (\<lambda>t. tok_val t \<noteq> None) (findall NUM l)"
    using findall_NUM_float[of _ l] by (fastforce simp: list_all_iff tok_val_def)
  have 3: "name (coal_row l) = [] \<or>
      \<not> (is_space (hd (name (coal_row l))) \<or> is_space (last (name (coal_row l))))"
    using strip_ends[of "re_sub name_sep '' '' l"] by (auto simp: coal_row_fields)
  have 4: "coal_row ''Adani  |  3850  4200.50  1.25  18.3'' =
     \<lparr>name = ''Adani'', GCV_ARB = Some 3850, Landed_RsPerMT = Some 4200.50,
      Eff_RsPerMkcal = Some 1.25, Pct_share = Some 18.3\<rparr>"
    by code_simp
  have 5: "parse_coal_sources (''Coal source | GCV (ARB) | Landed cost | Eff. cost | % share'' @ [CHR 0x0A] @
                       ''Adani  |  3850  4200.50  1.25  18.3'') =
     [\<lparr>name = ''Adani'', GCV_ARB = Some 3850, Landed_RsPerMT = Some 4200.50,
       Eff_RsPerMkcal = Some 1.25, Pct_share = Some 18.3\<rparr>]"
    by code_simp
  have 6: "name (coal_row l) = strip (squeeze is_name_sep l)"
    by (simp add: coal_row_fields name_sep_def re_sub_squeeze)
  have 7: "\<exists>a b. squeeze is_name_sep l = a @ name (coal_row l) @ b \<and>
          list_all is_space a \<and> list_all is_space b"
    unfolding 6 by (rule strip_decomp)
  show ?thesis
    using 1 2 3 4 5 6 7 findall_in_order[of NUM l] coal_name_chars[of l] coal_name_keeps[of l]
    by blast
qed
theorem coal_row_positional_witness:
  "GCV_ARB (coal_row ''WCL (Rail) | 3,450 | 5100.75'') = Some 3450 \<and>
   Landed_RsPerMT (coal_row ''WCL (Rail) | 3,450 | 5100.75'') = Some 5100.75 \<and>
   Eff_RsPerMkcal (coal_row ''WCL (Rail) | 3,450 | 5100.75'') = None \<and>
   Pct_share (coal_row ''WCL (Rail) | 3,450 | 5100.75'') = None \<and>
   name (coal_row ''WCL (Rail) | 3,450 | 5100.75'') = ''WCL (Rail)'' \<and>
   name (coal_row ''SECL - 12 | Korba (W)   4100'') = ''SECL Korba (W)''"
proof -
  have f: "findall NUM ''WCL (Rail) | 3,450 | 5100.75'' = [''3,450'', ''5100.75'']"
    by code_simp
  have v: "nth_val [''3,450'', ''5100.75''] 0 = Some 3450"
    "nth_val [''3,450'', ''5100.75''] 1 = Some 5100.75"
    "nth_val [''3,450'', ''5100.75''] 2 = None" "nth_val [''3,450'', ''5100.75''] 3 = None"
    by code_simp+
  have n: "strip (squeeze is_name_sep ''WCL (Rail) | 3,450 | 5100.75'') = ''WCL (Rail)''"
    "strip (squeeze is_name_sep ''SECL - 12 | Korba (W)   4100'') = ''SECL Korba (W)''"
    by code_simp+
  show ?thesis
    using coal_row_positional[of "''WCL (Rail) | 3,450 | 5100.75''"]
      coal_row_positional[of "''SECL - 12 | Korba (W)   4100''"]
    unfolding f v n by blast
qed

theorem coal_name_keeps_punctuation:
  "name (coal_row ''WCL (Rail): 3450'') = ''WCL (Rail):''"
  by code_simp

section \<open>Properties of the reasons extractor\<close>

text \<open>
  C7. The claim says that the secondary pass adds no entry for a canonical label the
  primary pattern has matched. On the text of the claim the primary pattern yields the
  entry Stack; the secondary pass tests whether \<open>stack loss\<close> occurs in \<open>stack\<close>, which it
  does not, and adds a second entry for the same amount.
\<close>

theorem stack_loss_counted_twice:
  "parse_reasons_breakup ''Stack loss - 2.15 rs.cr'' =
     Inr [\<lparr>reason = ''Stack'', amount_rs_cr = Some 2.15\<rparr>,
          \<lparr>reason = ''Stack loss'', amount_rs_cr = Some 2.15\<rparr>]"
  by code_simp

section \<open>Properties of the local store\<close>






lemma write_df_row: "write_row rd (df_row r) = record_row r"
  by (simp add: write_row_def df_row_def record_row_def write_text_def)






lemma stored_row_eq: "stored_row rd st r = record_row r"
  by (cases st) (simp_all add: stored_row_def store_rows_def append_local_def to_csv_def write_df_row)







section \<open>Properties of review and save\<close>

lemma number_input_field: "number_input (or_zero x) e = field_value e x"
  by (simp add: number_input_def or_zero_def field_value_def split: option.splits)

lemma number_input_zero: "number_input 0 e = field_value e None"
  by (simp add: number_input_def field_value_def split: option.splits)


text \<open>
  C1 (as amended). For every extraction result, every review and every store: each of
  the nine numeric fields of the row appended to the store is present, never null. It
  holds the number the reviewer entered; in a widget left untouched, the extracted value;
  and where extraction failed, zero. The two station metrics are not extracted: they
  hold the reviewer's number or zero.
\<close>

theorem stored_numbers_never_null:
  "c_vc_merc_order (stored_row rd st (build_record v sp raw ui)) =
     Some (field_value (in_merc ui) (merc_order v)) \<and>
   c_vc_recoverable_mod (stored_row rd st (build_record v sp raw ui)) =
     Some (field_value (in_recoverable ui) (recoverable_mod v)) \<and>
   c_vc_actual (stored_row rd st (build_record v sp raw ui)) =
     Some (field_value (in_actual ui) (actual v)) \<and>
   c_vc_unrecoverable_rpkwh (stored_row rd st (build_record v sp raw ui)) =
     Some (field_value (in_unrecoverable ui) (unrecoverable_rpkwh v)) \<and>
   c_fuel_cost_disallowance_rs_cr (stored_row rd st (build_record v sp raw ui)) =
     Some (field_value (in_disallowance ui) (disallowance_rs_cr v)) \<and>
   c_sp_coal_allowable (stored_row rd st (build_record v sp raw ui)) =
     Some (field_value (in_sp_allow ui) (allowable sp)) \<and>
   c_sp_coal_actual (stored_row rd st (build_record v sp raw ui)) =
     Some (field_value (in_sp_actual ui) (sp_actual sp)) \<and>
   c_aux_power_pct (stored_row rd st (build_record v sp raw ui)) =
     Some (field_value (in_aux_power ui) None) \<and>
   c_sp_oil_ml_per_kwh (stored_row rd st (build_record v sp raw ui)) =
     Some (field_value (in_sp_oil ui) None)"
  by (simp add: stored_row_eq record_row_def build_record_def number_input_field
      number_input_zero)



theorem stored_numbers_never_null_witness:
  "c_vc_merc_order (stored_row example_reader None
      (build_record (vc_init\<lparr>merc_order := Some 4.1\<rparr>) \<lparr>allowable = None, sp_actual = None\<rparr>
         ''KTPS report'' (untouched\<lparr>in_actual := Some 3.2\<rparr>))) = Some 4.1 \<and>
   c_vc_actual (stored_row example_reader None
      (build_record (vc_init\<lparr>merc_order := Some 4.1\<rparr>) \<lparr>allowable = None, sp_actual = None\<rparr>
         ''KTPS report'' (untouched\<lparr>in_actual := Some 3.2\<rparr>))) = Some 3.2 \<and>
   c_sp_coal_actual (stored_row example_reader None
      (build_record (vc_init\<lparr>merc_order := Some 4.1\<rparr>) \<lparr>allowable = None, sp_actual = None\<rparr>
         ''KTPS report'' (untouched\<lparr>in_actual := Some 3.2\<rparr>))) = Some 0"
  using stored_numbers_never_null[of example_reader None "vc_init\<lparr>merc_order := Some 4.1\<rparr>"
      "\<lparr>allowable = None, sp_actual = None\<rparr>" "''KTPS report''" "untouched\<lparr>in_actual := Some 3.2\<rparr>"]
  by (simp add: field_value_def vc_init_def untouched_def)


text \<open>
  The claim as stated fails where nothing was extracted and nothing entered: the stored
  fields are 0.0, not null.
\<close>

theorem failed_extraction_stored_as_zero:
  "merc_order vc_init = None \<and>
   c_vc_merc_order (stored_row example_reader None
      (build_record vc_init \<lparr>allowable = None, sp_actual = None\<rparr> ''KTPS report'' untouched))
     = Some 0 \<and>
   c_aux_power_pct (stored_row example_reader None
      (build_record vc_init \<lparr>allowable = None, sp_actual = None\<rparr> ''KTPS report'' untouched))
     = Some 0"
  by (simp add: stored_row_eq record_row_def build_record_def number_input_def or_zero_def
      vc_init_def untouched_def)


section \<open>Properties of the remote append\<close>






section \<open>Properties of the monthly aggregate\<close>















section \<open>Properties of the coal-source rollup\<close>

text \<open>
  C8. The claim says that a null effective cost is left out of the average as a zero
  is. A stored zero is left out; a stored null comes back from \<open>pd.read_json\<close> as NaN,
  which the test \<open>if eff:\<close> lets through: it enters the list and the average of the
  name is NaN.
\<close>

theorem null_eff_poisons_average:
  "map avg_eff_rs_per_mkcal (coal_rollup
     [Frame [\<lparr>r_name = NameStr ''Adani'', r_eff = Some (read_json_number (Some 1.25)),
              r_pct = Some (read_json_number (Some 18.3))\<rparr>,
             \<lparr>r_name = NameStr ''Adani'', r_eff = Some (read_json_number None),
              r_pct = Some (read_json_number None)\<rparr>]]) = [Some NaN] \<and>
   map avg_eff_rs_per_mkcal (coal_rollup
     [Frame [\<lparr>r_name = NameStr ''Adani'', r_eff = Some (read_json_number (Some 1.25)),
              r_pct = Some (read_json_number (Some 18.3))\<rparr>,
             \<lparr>r_name = NameStr ''Adani'', r_eff = Some (read_json_number (Some 0)),
              r_pct = Some (read_json_number (Some 0))\<rparr>]]) = [Some (Fin 1.25)]"
  by code_simp

end
